theory Spec2Isabelle
  imports Main
begin

text \<open>
  A model of the scheduler of webharvest: the pool of drivers (\<^verbatim>\<open>Webscrapper.driver_queue\<close>),
  the worker \<^verbatim>\<open>scrape_item\<close> with the loop over the states of a \<^verbatim>\<open>DriverContext\<close>, the
  collector \<^verbatim>\<open>process_completed_tasks\<close> and the drain \<^verbatim>\<open>clear_driver_queue\<close>.

  Driver contexts, records and futures are objects that the code shares by reference, so
  the model keeps them in stores indexed by identity and passes the whole state along.
  A call returns a value or raises (\<open>result\<close>); a call that may never return yields an
  \<open>option\<close>, \<open>None\<close> standing for no return. The state carries a log of observations
  (\<open>trace\<close>) that the code itself does not keep: it is only appended to, and the
  properties below read it.

  Each function is modelled as it runs in one thread. That is all there is to the
  collector and the drain, which run in the main thread after the executor's \<^verbatim>\<open>with\<close>
  block has ended, and to a worker between taking a driver and putting it back, since no
  other thread holds that driver or its record meanwhile. The executor is modelled
  running its work items one after the other; where the order of two threads matters,
  the stretches of \<^verbatim>\<open>scrape_item\<close> are run by hand in that order.
\<close>

section \<open>Data model (webharvest/schemas.py, webharvest/exceptions.py)\<close>

text \<open>
  \<^verbatim>\<open>ContextStatusEnum\<close> of schemas.py. \<^verbatim>\<open>DriverContext.has_finished\<close> treats every
  member but \<^verbatim>\<open>INITIALIZED\<close> as terminal.
\<close>

datatype ContextStatusEnum = INITIALIZED | SUCCEED | FAILED | CRITICAL | CANCELLED

text \<open>
  Exceptions by class. \<^verbatim>\<open>WebScrapperException\<close> stands for the class of exceptions.py and
  its subclasses, \<^verbatim>\<open>QueueEmpty\<close> for \<^verbatim>\<open>queue.Empty\<close>, \<^verbatim>\<open>OtherException\<close> for any other
  subclass of \<^verbatim>\<open>Exception\<close> (a Selenium error, say) and \<^verbatim>\<open>BaseExceptionOnly\<close> for a
  \<^verbatim>\<open>BaseException\<close> that is no \<^verbatim>\<open>Exception\<close> (\<^verbatim>\<open>KeyboardInterrupt\<close>, \<^verbatim>\<open>SystemExit\<close>).
  \<^verbatim>\<open>AbstractClassError\<close> is the \<^verbatim>\<open>TypeError\<close> that the interpreter raises when an abstract
  class is instantiated: its message names the class and the abstract methods (kept
  here as data, the wording being the interpreter's).
\<close>

datatype pyexn =
    WebScrapperException string
  | QueueEmpty
  | TypeError string
  | AbstractClassError string "string list"
  | ValueError string
  | AttributeError string
  | KeyError
  | CancelledError
  | OtherException string
  | BaseExceptionOnly string

fun is_WebScrapperException :: "pyexn \<Rightarrow> bool" where
  "is_WebScrapperException (WebScrapperException m) = True"
| "is_WebScrapperException e = False"

fun is_Exception :: "pyexn \<Rightarrow> bool" where
  "is_Exception (BaseExceptionOnly m) = False"
| "is_Exception e = True"


text \<open>A call either returns a value or raises.\<close>

datatype 'a result = Return 'a | Raise pyexn

type_synonym did = nat  \<comment> \<open>identity of a \<^verbatim>\<open>DriverContext\<close> object\<close>
type_synonym rid = nat  \<comment> \<open>identity of a \<^verbatim>\<open>ContextStatusSchema\<close> object\<close>
type_synonym fid = nat  \<comment> \<open>identity of a \<^verbatim>\<open>Future\<close>\<close>

record ('i, 'o) ContextStatusSchema =
  status :: ContextStatusEnum
  error :: "pyexn option"
  current_state :: "string option"
  input_data :: 'i
  output_data :: 'o
  tmp_data :: "(string \<times> string) list"

text \<open>
  What calling a state class with \<^verbatim>\<open>driver_context=...\<close> does once an object has been
  allocated. \<^verbatim>\<open>DriverState.__init__\<close> (driver.py, 58-59) stores the context it is given;
  a class may define a constructor of its own, which may raise (one that takes other
  arguments raises \<^verbatim>\<open>TypeError\<close>) or return an instance that refers to whatever context
  it chose.
\<close>

datatype ctor = DriverState_init | Ctor_raises pyexn | Ctor_returns did

text \<open>
  A Python class, as far as \<^verbatim>\<open>set_state\<close> looks at it: its name, the names along its
  method resolution order, the abstract base classes it counts as a virtual subclass of
  (by \<^verbatim>\<open>ABC.register\<close>), the abstract methods it has not implemented (a class of
  \<^verbatim>\<open>abc.ABC\<close> with any left cannot be instantiated) and its constructor.
\<close>

record pyclass =
  cls_name :: string
  cls_mro :: "string list"
  cls_registered :: "string list"
  cls_abstractmethods :: "string list"
  cls_ctor :: ctor

text \<open>
  \<^verbatim>\<open>issubclass(c, b)\<close> for an abstract base class \<open>b\<close>: \<open>b\<close> is among the bases of
  \<open>c\<close>, or \<open>c\<close> is registered with it.
\<close>

definition issubclass :: "pyclass \<Rightarrow> string \<Rightarrow> bool" where
  "issubclass c b = (b \<in> set (cls_mro c) \<or> b \<in> set (cls_registered c))"

text \<open>
  \<^verbatim>\<open>class DriverState(abc.ABC, Generic[InputDataT, OutputDataT])\<close> of driver.py, whose
  \<^verbatim>\<open>run\<close> is an \<^verbatim>\<open>abc.abstractmethod\<close>.
\<close>

definition DriverState_cls :: pyclass where
  "DriverState_cls =
     \<lparr>cls_name = ''DriverState'',
      cls_mro = [''DriverState'', ''ABC'', ''Generic'', ''object''],
      cls_registered = [],
      cls_abstractmethods = [''run''],
      cls_ctor = DriverState_init\<rparr>"

text \<open>An instance of a state class: \<^verbatim>\<open>DriverState.__init__\<close> stores the context.\<close>

record DriverState =
  state_cls :: pyclass
  driver_context :: did

text \<open>
  A \<^verbatim>\<open>DriverContext\<close>: the attributes \<^verbatim>\<open>state\<close> and \<^verbatim>\<open>context_status\<close> do not exist
  before their first assignment (\<open>None\<close> here; reading one raises \<^verbatim>\<open>AttributeError\<close>).
  \<^verbatim>\<open>context_status\<close> is a reference to a record; \<open>has_quit\<close> records that
  \<^verbatim>\<open>quit\<close> closed the browser session.
\<close>

record DriverContext =
  state :: "DriverState option"
  context_status :: "rid option"
  has_quit :: bool

text \<open>
  What a step does, through the interface \<^verbatim>\<open>DriverState\<close> gives it:
  \<^verbatim>\<open>self.driver_context.set_state(cls)\<close>, \<^verbatim>\<open>self.set_run_status(s)\<close>, a write through
  \<^verbatim>\<open>self.output\<close> or to the scratch data, and raising. The fields \<^verbatim>\<open>error\<close> and
  \<^verbatim>\<open>current_state\<close> of the record are the scheduler's to write; a step that rewrote them
  behind its back is outside this model.
\<close>

datatype 'o action =
    SetState pyclass
  | SetRunStatus ContextStatusEnum
  | SetOutput 'o
  | SetTmp string string
  | RaiseExc pyexn

text \<open>
  The step graph is the caller's: \<open>prog n c r\<close> is what the \<^verbatim>\<open>run\<close> method of state
  class \<open>c\<close> does when it is the \<open>n\<close>-th step executed in the process and the bound
  record reads \<open>r\<close>. The index lets the same step behave differently each time, as a
  browser does.
\<close>

type_synonym ('i, 'o) prog = "nat \<Rightarrow> pyclass \<Rightarrow> ('i, 'o) ContextStatusSchema \<Rightarrow> 'o action list"

text \<open>
  Observations, appended to a log in the order they happen: a driver leaves the queue,
  a \<^verbatim>\<open>get\<close> waits its whole timeout on an empty queue, a driver is put back, a step is
  run (by which context, the step's class name, and the record's status at that moment),
  a screenshot is taken, a session is closed.
\<close>

datatype event =
    QueueGet did
  | QueueGetTimeout nat
  | QueuePut did
  | StepRun did string ContextStatusEnum
  | Screenshot did
  | Quit did

text \<open>
  The states of a \<^verbatim>\<open>concurrent.futures.Future\<close>; a finished one holds what the worker
  returned or raised.
\<close>

datatype future_state = PENDING | RUNNING | CANCELLED_F | FINISHED "rid result"

text \<open>
  The \<^verbatim>\<open>Webscrapper\<close> object with the heap it works on. \<open>driver_queue\<close> is the
  \<^verbatim>\<open>queue.Queue\<close> of idle drivers (its \<^verbatim>\<open>maxsize\<close> is \<open>threads_num\<close>) and
  \<open>unfinished_tasks\<close> that queue's counter; \<open>contexts\<close> and \<open>statuses\<close> are the
  driver and record objects by identity; \<open>futures\<close> is the dictionary from futures to
  submitted records, in insertion order; \<open>status_contexts\<close> is the list the driver
  context manager appends to (examples/mywebscrapper/contextmanager.py).
\<close>

record ('i, 'o) webscrapper =
  threads_num :: int
  driver_queue :: "did list"
  unfinished_tasks :: nat
  contexts :: "did \<Rightarrow> DriverContext"
  statuses :: "rid \<Rightarrow> ('i, 'o) ContextStatusSchema"
  scraping_contexts :: "rid list"
  futures :: "(fid \<times> rid) list"
  fstates :: "fid \<Rightarrow> future_state"
  status_contexts :: "rid list"
  trace :: "event list"
  ticks :: nat

section \<open>The driver queue (queue.Queue, one thread at a time)\<close>

text \<open>
  \<^verbatim>\<open>get(block=True, timeout=t)\<close>: with no other thread to put a driver back, an empty
  queue stays empty, the call waits \<open>t\<close> and raises \<^verbatim>\<open>queue.Empty\<close>.
\<close>

definition queue_get :: "nat \<Rightarrow> ('i, 'o) webscrapper \<Rightarrow> did result \<times> ('i, 'o) webscrapper" where
  "queue_get timeout s =
     (case driver_queue s of
        [] \<Rightarrow> (Raise QueueEmpty, s\<lparr>trace := trace s @ [QueueGetTimeout timeout]\<rparr>)
      | d # ds \<Rightarrow> (Return d, s\<lparr>driver_queue := ds, trace := trace s @ [QueueGet d]\<rparr>))"

text \<open>
  \<^verbatim>\<open>put(item)\<close> has no timeout: on a full queue it never returns (\<open>None\<close>). A
  \<^verbatim>\<open>maxsize\<close> of zero or less means no bound.
\<close>

definition queue_put :: "did \<Rightarrow> ('i, 'o) webscrapper \<Rightarrow> ('i, 'o) webscrapper option" where
  "queue_put d s =
     (if 0 < threads_num s \<and> threads_num s \<le> int (length (driver_queue s)) then None
      else Some (s\<lparr>driver_queue := driver_queue s @ [d],
                   unfinished_tasks := Suc (unfinished_tasks s),
                   trace := trace s @ [QueuePut d]\<rparr>))"

definition task_done :: "('i, 'o) webscrapper \<Rightarrow> unit result \<times> ('i, 'o) webscrapper" where
  "task_done s =
     (if unfinished_tasks s = 0 then (Raise (ValueError ''task_done() called too many times''), s)
      else (Return (), s\<lparr>unfinished_tasks := unfinished_tasks s - 1\<rparr>))"

section \<open>The driver context and its states (webharvest/driver.py)\<close>

text \<open>The property \<^verbatim>\<open>DriverContext.status\<close>: the record the context is bound to.\<close>

definition status_of :: "did \<Rightarrow> ('i, 'o) webscrapper \<Rightarrow> rid result" where
  "status_of d s =
     (case context_status (contexts s d) of
        None \<Rightarrow> Raise (AttributeError ''context_status'')
      | Some r \<Rightarrow> Return r)"

definition upd_status ::
  "rid \<Rightarrow> (('i, 'o) ContextStatusSchema \<Rightarrow> ('i, 'o) ContextStatusSchema) \<Rightarrow>
   ('i, 'o) webscrapper \<Rightarrow> ('i, 'o) webscrapper" where
  "upd_status r f s = s\<lparr>statuses := (statuses s)(r := f (statuses s r))\<rparr>"

text \<open>
  The call \<^verbatim>\<open>state_cls(driver_context=self)\<close>: allocating an object of a class with
  abstract methods left raises \<^verbatim>\<open>TypeError\<close> before any constructor runs; otherwise the
  class's constructor decides.
\<close>

definition instantiate :: "pyclass \<Rightarrow> did \<Rightarrow> DriverState result" where
  "instantiate c d =
     (if cls_abstractmethods c \<noteq> [] then
        Raise (AbstractClassError (cls_name c) (cls_abstractmethods c))
      else
        (case cls_ctor c of
           DriverState_init \<Rightarrow> Return \<lparr>state_cls = c, driver_context = d\<rparr>
         | Ctor_raises e \<Rightarrow> Raise e
         | Ctor_returns x \<Rightarrow> Return \<lparr>state_cls = c, driver_context = x\<rparr>))"

text \<open>
  \<^verbatim>\<open>set_state\<close> (driver.py, 173-177): the test, the instantiation, and then the
  assignment to \<^verbatim>\<open>self.state\<close>, which an exception of the instantiation never reaches.
\<close>

definition set_state :: "pyclass \<Rightarrow> did \<Rightarrow> ('i, 'o) webscrapper \<Rightarrow> unit result \<times> ('i, 'o) webscrapper" where
  "set_state c d s =
     (if \<not> issubclass c ''DriverState'' then
        (Raise (TypeError ''state must be a subclass of DriverState.''), s)
      else
        (case instantiate c d of
           Raise e \<Rightarrow> (Raise e, s)
         | Return inst \<Rightarrow>
             (Return (),
              s\<lparr>contexts := (contexts s)(d := (contexts s d)\<lparr>state := Some inst\<rparr>)\<rparr>)))"

text \<open>\<^verbatim>\<open>has_finished\<close> (driver.py, 217-224).\<close>

definition has_finished :: "did \<Rightarrow> ('i, 'o) webscrapper \<Rightarrow> bool result" where
  "has_finished d s =
     (case status_of d s of
        Raise e \<Rightarrow> Raise e
      | Return r \<Rightarrow> Return (status (statuses s r) \<in> set [SUCCEED, FAILED, CRITICAL, CANCELLED]))"

text \<open>
  One action of a step, run on the context the state instance is bound to.
  \<^verbatim>\<open>set_run_status\<close> (driver.py, 97-99) writes \<^verbatim>\<open>self.status.status\<close>.
\<close>

definition exec_action :: "'o action \<Rightarrow> did \<Rightarrow> ('i, 'o) webscrapper \<Rightarrow> unit result \<times> ('i, 'o) webscrapper" where
  "exec_action a d s =
     (case a of
        SetState c \<Rightarrow> set_state c d s
      | SetRunStatus x \<Rightarrow>
          (case status_of d s of
             Raise e \<Rightarrow> (Raise e, s)
           | Return r \<Rightarrow> (Return (), upd_status r (\<lambda>c. c\<lparr>status := x\<rparr>) s))
      | SetOutput out \<Rightarrow>
          (case status_of d s of
             Raise e \<Rightarrow> (Raise e, s)
           | Return r \<Rightarrow> (Return (), upd_status r (\<lambda>c. c\<lparr>output_data := out\<rparr>) s))
      | SetTmp k v \<Rightarrow>
          (case status_of d s of
             Raise e \<Rightarrow> (Raise e, s)
           | Return r \<Rightarrow> (Return (), upd_status r (\<lambda>c. c\<lparr>tmp_data := (k, v) # tmp_data c\<rparr>) s))
      | RaiseExc e \<Rightarrow> (Raise e, s))"

text \<open>A step's actions in order; the first that raises ends the step, its writes kept.\<close>

fun exec_actions :: "'o action list \<Rightarrow> did \<Rightarrow> ('i, 'o) webscrapper \<Rightarrow> unit result \<times> ('i, 'o) webscrapper" where
  "exec_actions [] d s = (Return (), s)"
| "exec_actions (a # as) d s =
     (case exec_action a d s of
        (Raise e, s') \<Rightarrow> (Raise e, s')
      | (Return u, s') \<Rightarrow> exec_actions as d s')"

text \<open>
  \<^verbatim>\<open>DriverContext.run\<close> (driver.py, 226-229): the right-hand side
  \<^verbatim>\<open>self.state.__class__.__name__\<close> is read, then \<^verbatim>\<open>self.status\<close>, then the name is
  written, then the state's \<^verbatim>\<open>run\<close> is called.
\<close>

definition DriverContext_run ::
  "('i, 'o) prog \<Rightarrow> did \<Rightarrow> ('i, 'o) webscrapper \<Rightarrow> unit result \<times> ('i, 'o) webscrapper" where
  "DriverContext_run prog d s =
     (case state (contexts s d) of
        None \<Rightarrow> (Raise (AttributeError ''state''), s)
      | Some st \<Rightarrow>
          (case status_of d s of
             Raise e \<Rightarrow> (Raise e, s)
           | Return r \<Rightarrow>
               (let s1 = upd_status r (\<lambda>c. c\<lparr>current_state := Some (cls_name (state_cls st))\<rparr>) s;
                    s2 = s1\<lparr>trace := trace s1 @ [StepRun d (cls_name (state_cls st)) (status (statuses s1 r))],
                            ticks := Suc (ticks s1)\<rparr>
                in exec_actions (prog (ticks s) (state_cls st) (statuses s2 r)) (driver_context st) s2)))"

section \<open>The worker (webharvest/webscrapper.py, scrape_item)\<close>

text \<open>
  The loop \<^verbatim>\<open>while not driver_context.has_finished(): driver_context.run()\<close>. It may run
  for ever; \<open>fuel\<close> bounds the iterations and \<open>None\<close> means that the bound was reached.
\<close>

fun run_loop ::
  "nat \<Rightarrow> ('i, 'o) prog \<Rightarrow> did \<Rightarrow> ('i, 'o) webscrapper \<Rightarrow> (unit result \<times> ('i, 'o) webscrapper) option" where
  "run_loop 0 prog d s = None"
| "run_loop (Suc fuel) prog d s =
     (case has_finished d s of
        Raise e \<Rightarrow> Some (Raise e, s)
      | Return True \<Rightarrow> Some (Return (), s)
      | Return False \<Rightarrow>
          (case DriverContext_run prog d s of
             (Raise e, s') \<Rightarrow> Some (Raise e, s')
           | (Return u, s') \<Rightarrow> run_loop fuel prog d s'))"

text \<open>
  \<^verbatim>\<open>_take_screenshot\<close> swallows every \<^verbatim>\<open>Exception\<close> of its own; what is left of it here is
  the observation.
\<close>

definition take_screenshot :: "did \<Rightarrow> ('i, 'o) webscrapper \<Rightarrow> ('i, 'o) webscrapper" where
  "take_screenshot d s = s\<lparr>trace := trace s @ [Screenshot d]\<rparr>"

text \<open>
  The two \<^verbatim>\<open>except\<close> clauses of \<^verbatim>\<open>scrape_item\<close> (215-222). The result is the exception
  still in flight after them, if any: one that neither clause catches, or one that the
  handler's own \<^verbatim>\<open>driver_context.status\<close> raised.
\<close>

definition handle_exception ::
  "unit result \<Rightarrow> did \<Rightarrow> ('i, 'o) webscrapper \<Rightarrow> pyexn option \<times> ('i, 'o) webscrapper" where
  "handle_exception res d s =
     (case res of
        Return u \<Rightarrow> (None, s)
      | Raise e \<Rightarrow>
          if is_WebScrapperException e then
            (case status_of d s of
               Raise a \<Rightarrow> (Some a, s)
             | Return r \<Rightarrow> (None, upd_status r (\<lambda>c. c\<lparr>error := Some e\<rparr>) s))
          else if is_Exception e then
            (case status_of d s of
               Raise a \<Rightarrow> (Some a, s)
             | Return r \<Rightarrow> (None, take_screenshot d (upd_status r (\<lambda>c. c\<lparr>error := Some e\<rparr>) s)))
          else (Some e, s))"

text \<open>
  \<^verbatim>\<open>scrape_item\<close> (200-229). The \<^verbatim>\<open>get\<close> stands before the \<^verbatim>\<open>try\<close>, so its
  \<^verbatim>\<open>queue.Empty\<close> leaves the function at once. The \<^verbatim>\<open>finally\<close> clause puts the driver
  back and calls \<^verbatim>\<open>task_done\<close>; an exception still in flight is raised again after it.
\<close>

definition scrape_item ::
  "nat \<Rightarrow> ('i, 'o) prog \<Rightarrow> rid \<Rightarrow> ('i, 'o) webscrapper \<Rightarrow> (rid result \<times> ('i, 'o) webscrapper) option" where
  "scrape_item fuel prog blank_context_status s =
     (case queue_get 60 s of
        (Raise e, s1) \<Rightarrow> Some (Raise e, s1)
      | (Return d, s1) \<Rightarrow>
          (let s2 = s1\<lparr>contexts := (contexts s1)
                      (d := (contexts s1 d)\<lparr>context_status := Some blank_context_status\<rparr>)\<rparr>
           in case run_loop fuel prog d s2 of
                None \<Rightarrow> None
              | Some (res, s3) \<Rightarrow>
                  (case handle_exception res d s3 of
                     (pending, s4) \<Rightarrow>
                       (case queue_put d s4 of
                          None \<Rightarrow> None
                        | Some s5 \<Rightarrow>
                            (case task_done s5 of
                               (Raise e, s6) \<Rightarrow> Some (Raise e, s6)
                             | (Return u, s6) \<Rightarrow>
                                 (case pending of
                                    Some e \<Rightarrow> Some (Raise e, s6)
                                  | None \<Rightarrow> Some (status_of d s6, s6)))))))"

text \<open>
  The three stretches of \<^verbatim>\<open>scrape_item\<close> between which another worker thread may run:
  taking and binding a driver (204-207), the \<^verbatim>\<open>try\<close> statement with its \<^verbatim>\<open>finally\<close>
  clause (210-227), and the \<^verbatim>\<open>return\<close> (229), which reads \<^verbatim>\<open>driver_context.status\<close> again.
\<close>

definition scrape_item_acquire ::
  "rid \<Rightarrow> ('i, 'o) webscrapper \<Rightarrow> did result \<times> ('i, 'o) webscrapper" where
  "scrape_item_acquire blank_context_status s =
     (case queue_get 60 s of
        (Raise e, s1) \<Rightarrow> (Raise e, s1)
      | (Return d, s1) \<Rightarrow>
          (Return d, s1\<lparr>contexts := (contexts s1)
                      (d := (contexts s1 d)\<lparr>context_status := Some blank_context_status\<rparr>)\<rparr>))"

definition scrape_item_try ::
  "nat \<Rightarrow> ('i, 'o) prog \<Rightarrow> did \<Rightarrow> ('i, 'o) webscrapper \<Rightarrow>
   (pyexn option \<times> ('i, 'o) webscrapper) option" where
  "scrape_item_try fuel prog d s =
     (case run_loop fuel prog d s of
        None \<Rightarrow> None
      | Some (res, s3) \<Rightarrow>
          (case handle_exception res d s3 of
             (pending, s4) \<Rightarrow>
               (case queue_put d s4 of
                  None \<Rightarrow> None
                | Some s5 \<Rightarrow>
                    (case task_done s5 of
                       (Raise e, s6) \<Rightarrow> Some (Some e, s6)
                     | (Return u, s6) \<Rightarrow> Some (pending, s6)))))"

definition scrape_item_return :: "did \<Rightarrow> pyexn option \<Rightarrow> ('i, 'o) webscrapper \<Rightarrow> rid result" where
  "scrape_item_return d pending s = (case pending of Some e \<Rightarrow> Raise e | None \<Rightarrow> status_of d s)"

section \<open>Futures and the executor (concurrent.futures, as the code relies on it)\<close>

text \<open>
  \<^verbatim>\<open>Future.cancel()\<close>: a pending future becomes cancelled; a running or finished one is
  left as it is (the call returns \<^verbatim>\<open>False\<close>, which \<^verbatim>\<open>cancel_futures\<close> ignores).
\<close>

definition Future_cancel :: "fid \<Rightarrow> ('i, 'o) webscrapper \<Rightarrow> ('i, 'o) webscrapper" where
  "Future_cancel f s =
     (case fstates s f of
        PENDING \<Rightarrow> s\<lparr>fstates := (fstates s)(f := CANCELLED_F)\<rparr>
      | RUNNING \<Rightarrow> s
      | CANCELLED_F \<Rightarrow> s
      | FINISHED res \<Rightarrow> s)"

text \<open>\<^verbatim>\<open>cancel_futures\<close> (webscrapper.py, 242-245).\<close>

definition cancel_futures :: "('i, 'o) webscrapper \<Rightarrow> ('i, 'o) webscrapper" where
  "cancel_futures s = fold Future_cancel (map fst (futures s)) s"

text \<open>
  \<^verbatim>\<open>Future.result()\<close>: the worker's value, the worker's exception raised again, or
  \<^verbatim>\<open>CancelledError\<close>. On a future that is not done the call waits; with nothing left to
  complete it, it never returns (\<open>None\<close>).
\<close>

definition Future_result :: "fid \<Rightarrow> ('i, 'o) webscrapper \<Rightarrow> rid result option" where
  "Future_result f s =
     (case fstates s f of
        PENDING \<Rightarrow> None
      | RUNNING \<Rightarrow> None
      | CANCELLED_F \<Rightarrow> Some (Raise CancelledError)
      | FINISHED res \<Rightarrow> Some res)"

text \<open>What the executor does with a worker's outcome: \<^verbatim>\<open>set_result\<close> or \<^verbatim>\<open>set_exception\<close>.\<close>

definition finish_future :: "fid \<Rightarrow> rid result \<Rightarrow> ('i, 'o) webscrapper \<Rightarrow> ('i, 'o) webscrapper" where
  "finish_future f res s = s\<lparr>fstates := (fstates s)(f := FINISHED res)\<rparr>"

text \<open>
  One work item of the executor: a cancelled future is skipped, a pending one is marked
  running, \<^verbatim>\<open>scrape_item\<close> is called, and whatever it returns or raises is stored in the
  future.
\<close>

definition run_work_item ::
  "nat \<Rightarrow> ('i, 'o) prog \<Rightarrow> fid \<Rightarrow> rid \<Rightarrow> ('i, 'o) webscrapper \<Rightarrow> ('i, 'o) webscrapper option" where
  "run_work_item fuel prog f r s =
     (case fstates s f of
        PENDING \<Rightarrow>
          (case scrape_item fuel prog r (s\<lparr>fstates := (fstates s)(f := RUNNING)\<rparr>) of
             None \<Rightarrow> None
           | Some (res, s') \<Rightarrow> Some (finish_future f res s'))
      | RUNNING \<Rightarrow> Some s
      | CANCELLED_F \<Rightarrow> Some s
      | FINISHED res \<Rightarrow> Some s)"

text \<open>
  The work items one after the other, in submission order: what an executor of one
  thread does (\<open>threads_num\<close> is 1 by default), and one of the schedules of a larger one.
\<close>

fun run_work_items ::
  "nat \<Rightarrow> ('i, 'o) prog \<Rightarrow> (fid \<times> rid) list \<Rightarrow> ('i, 'o) webscrapper \<Rightarrow> ('i, 'o) webscrapper option" where
  "run_work_items fuel prog [] s = Some s"
| "run_work_items fuel prog ((f, r) # rest) s =
     (case run_work_item fuel prog f r s of
        None \<Rightarrow> None
      | Some s' \<Rightarrow> run_work_items fuel prog rest s')"

section \<open>The orchestrator (webharvest/webscrapper.py)\<close>

text \<open>
  \<^verbatim>\<open>generate_driver_context\<close> (97-106) for the driver object \<open>d\<close>. Whether the browser
  session can be created is the environment's (\<open>failure\<close>).
\<close>

definition generate_driver_context ::
  "pyexn option \<Rightarrow> pyclass \<Rightarrow> did \<Rightarrow> ('i, 'o) webscrapper \<Rightarrow> did result \<times> ('i, 'o) webscrapper" where
  "generate_driver_context failure initial_state d s =
     (case failure of
        Some e \<Rightarrow> (Raise e, s)
      | None \<Rightarrow>
          (let s1 = s\<lparr>contexts := (contexts s)
                      (d := \<lparr>state = None, context_status = None, has_quit = False\<rparr>)\<rparr>
           in case set_state initial_state d s1 of
                (Raise e, s2) \<Rightarrow> (Raise e, s2)
              | (Return u, s2) \<Rightarrow> (Return d, s2)))"

text \<open>
  \<^verbatim>\<open>setup_driver_context\<close> (85-95): a driver that was created joins the queue; an
  \<^verbatim>\<open>Exception\<close> is logged and the slot stays empty.
\<close>

definition setup_driver_context ::
  "did result \<Rightarrow> ('i, 'o) webscrapper \<Rightarrow> (unit result \<times> ('i, 'o) webscrapper) option" where
  "setup_driver_context res s =
     (case res of
        Return d \<Rightarrow> (case queue_put d s of None \<Rightarrow> None | Some s1 \<Rightarrow> Some (Return (), s1))
      | Raise e \<Rightarrow> if is_Exception e then Some (Return (), s) else Some (Raise e, s))"

fun setup_all ::
  "(nat \<Rightarrow> pyexn option) \<Rightarrow> pyclass \<Rightarrow> did list \<Rightarrow> ('i, 'o) webscrapper \<Rightarrow>
   (unit result \<times> ('i, 'o) webscrapper) option" where
  "setup_all webdriver initial_state [] s = Some (Return (), s)"
| "setup_all webdriver initial_state (d # ds) s =
     (case generate_driver_context (webdriver d) initial_state d s of
        (res, s1) \<Rightarrow>
          (case setup_driver_context res s1 of
             None \<Rightarrow> None
           | Some (Raise e, s2) \<Rightarrow> Some (Raise e, s2)
           | Some (Return u, s2) \<Rightarrow> setup_all webdriver initial_state ds s2))"

text \<open>
  \<^verbatim>\<open>initialize_driver_pool\<close> (76-83): one creation per slot. \<^verbatim>\<open>ThreadPoolExecutor\<close>
  refuses a \<^verbatim>\<open>max_workers\<close> that is not positive.
\<close>

definition initialize_driver_pool ::
  "(nat \<Rightarrow> pyexn option) \<Rightarrow> pyclass \<Rightarrow> ('i, 'o) webscrapper \<Rightarrow>
   (unit result \<times> ('i, 'o) webscrapper) option" where
  "initialize_driver_pool webdriver initial_state s =
     (if threads_num s \<le> 0 then Some (Raise (ValueError ''max_workers must be greater than 0''), s)
      else setup_all webdriver initial_state [0..<nat (threads_num s)] s)"

text \<open>
  \<^verbatim>\<open>create_and_submit_tasks\<close> (159-166): one new, pending future per record, the
  dictionary from these futures to their records, and the work items run; leaving the
  \<^verbatim>\<open>with\<close> block waits until every work item has been run.
\<close>

definition submit_tasks :: "('i, 'o) webscrapper \<Rightarrow> ('i, 'o) webscrapper" where
  "submit_tasks s =
     s\<lparr>futures := enumerate 0 (scraping_contexts s), fstates := (\<lambda>f. PENDING)\<rparr>"

definition create_and_submit_tasks ::
  "nat \<Rightarrow> ('i, 'o) prog \<Rightarrow> ('i, 'o) webscrapper \<Rightarrow> (unit result \<times> ('i, 'o) webscrapper) option" where
  "create_and_submit_tasks fuel prog s =
     (if threads_num s \<le> 0 then Some (Raise (ValueError ''max_workers must be greater than 0''), s)
      else
        (case run_work_items fuel prog (futures (submit_tasks s)) (submit_tasks s) of
           None \<Rightarrow> None
         | Some s2 \<Rightarrow> Some (Return (), s2)))"

text \<open>
  \<^verbatim>\<open>process_completed_future\<close> (177-197). Only \<^verbatim>\<open>CancelledError\<close> is caught; any other
  exception of \<^verbatim>\<open>future.result()\<close> leaves the function.
\<close>

definition process_completed_future ::
  "fid \<Rightarrow> ('i, 'o) webscrapper \<Rightarrow> (rid result \<times> ('i, 'o) webscrapper) option" where
  "process_completed_future f s =
     (case Future_result f s of
        None \<Rightarrow> None
      | Some (Return r) \<Rightarrow>
          (case error (statuses s r) of
             None \<Rightarrow> Some (Return r, s)
           | Some e \<Rightarrow>
               if is_WebScrapperException e then
                 Some (Return r, upd_status r (\<lambda>c. c\<lparr>status := FAILED\<rparr>) s)
               else if is_Exception e then
                 Some (Return r, cancel_futures (upd_status r (\<lambda>c. c\<lparr>status := CRITICAL\<rparr>) s))
               else Some (Return r, s))
      | Some (Raise e) \<Rightarrow>
          if e = CancelledError then
            (case map_of (futures s) f of
               None \<Rightarrow> Some (Raise KeyError, s)
             | Some r \<Rightarrow> Some (Return r, upd_status r (\<lambda>c. c\<lparr>status := CANCELLED\<rparr>) s))
          else Some (Raise e, s))"

text \<open>\<^verbatim>\<open>add_context_status\<close> as examples/mywebscrapper/contextmanager.py implements it.\<close>

definition add_context_status :: "rid \<Rightarrow> ('i, 'o) webscrapper \<Rightarrow> ('i, 'o) webscrapper" where
  "add_context_status r s = s\<lparr>status_contexts := status_contexts s @ [r]\<rparr>"

text \<open>
  \<^verbatim>\<open>process_completed_tasks\<close> (168-175). \<open>order\<close> is the order in which
  \<^verbatim>\<open>as_completed\<close> yields the futures: each key of the dictionary once.
\<close>

fun process_completed_tasks ::
  "fid list \<Rightarrow> ('i, 'o) webscrapper \<Rightarrow> (unit result \<times> ('i, 'o) webscrapper) option" where
  "process_completed_tasks [] s = Some (Return (), s)"
| "process_completed_tasks (f # order) s =
     (case process_completed_future f s of
        None \<Rightarrow> None
      | Some (Raise e, s1) \<Rightarrow> Some (Raise e, s1)
      | Some (Return r, s1) \<Rightarrow> process_completed_tasks order (add_context_status r s1))"

text \<open>\<^verbatim>\<open>DriverContext.clear_context\<close>, which is \<^verbatim>\<open>quit\<close> (driver.py, 193-195, 250-252).\<close>

definition clear_context :: "did \<Rightarrow> ('i, 'o) webscrapper \<Rightarrow> ('i, 'o) webscrapper" where
  "clear_context d s =
     s\<lparr>contexts := (contexts s)(d := (contexts s d)\<lparr>has_quit := True\<rparr>),
       trace := trace s @ [Quit d]\<rparr>"

text \<open>\<^verbatim>\<open>_clear_driver_context\<close> (260-265).\<close>

definition clear_driver_context :: "('i, 'o) webscrapper \<Rightarrow> unit result \<times> ('i, 'o) webscrapper" where
  "clear_driver_context s =
     (case queue_get 1000 s of
        (Raise e, s1) \<Rightarrow> (Raise e, s1)
      | (Return d, s1) \<Rightarrow> task_done (clear_context d s1))"

text \<open>
  The loop of \<^verbatim>\<open>clear_driver_queue\<close> (253-258) over \<open>n\<close> indices: \<^verbatim>\<open>queue.Empty\<close> is
  caught and ends the loop, anything else leaves it.
\<close>

fun clear_loop :: "nat \<Rightarrow> ('i, 'o) webscrapper \<Rightarrow> unit result \<times> ('i, 'o) webscrapper" where
  "clear_loop 0 s = (Return (), s)"
| "clear_loop (Suc n) s =
     (case clear_driver_context s of
        (Raise e, s1) \<Rightarrow> if e = QueueEmpty then (Return (), s1) else (Raise e, s1)
      | (Return u, s1) \<Rightarrow> clear_loop n s1)"

definition clear_driver_queue :: "('i, 'o) webscrapper \<Rightarrow> unit result \<times> ('i, 'o) webscrapper" where
  "clear_driver_queue s = clear_loop (nat (threads_num s)) s"

text \<open>
  \<^verbatim>\<open>start_scraping\<close> (120-147). \<open>generated\<close> is what the collaborator's
  \<^verbatim>\<open>generate_scraping_contexts\<close> returns or raises; the hooks \<^verbatim>\<open>stop_processing\<close> and
  \<^verbatim>\<open>create_process_report\<close> are the collaborator's and change nothing here.
\<close>

definition start_scraping ::
  "nat \<Rightarrow> ('i, 'o) prog \<Rightarrow> rid list result \<Rightarrow> (nat \<Rightarrow> pyexn option) \<Rightarrow> pyclass \<Rightarrow> fid list \<Rightarrow>
   ('i, 'o) webscrapper \<Rightarrow> (unit result \<times> ('i, 'o) webscrapper) option" where
  "start_scraping fuel prog generated webdriver initial_state order s =
     (case generated of
        Raise e \<Rightarrow> Some (Raise e, s)
      | Return items \<Rightarrow>
          (case initialize_driver_pool webdriver initial_state (s\<lparr>scraping_contexts := items\<rparr>) of
             None \<Rightarrow> None
           | Some (Raise e, s2) \<Rightarrow> Some (Raise e, s2)
           | Some (Return u, s2) \<Rightarrow>
               (case create_and_submit_tasks fuel prog s2 of
                  None \<Rightarrow> None
                | Some (Raise e, s3) \<Rightarrow> Some (Raise e, s3)
                | Some (Return u, s3) \<Rightarrow>
                    (case process_completed_tasks order s3 of
                       None \<Rightarrow> None
                     | Some (Raise e, s4) \<Rightarrow> Some (Raise e, s4)
                     | Some (Return u, s4) \<Rightarrow> Some (clear_driver_queue s4)))))"

section \<open>The example of the repository (examples/mywebscrapper)\<close>

text \<open>
  The state classes of examples/mywebscrapper/states.py: \<^verbatim>\<open>MyDriverState\<close> implements no
  \<^verbatim>\<open>run\<close> and stays abstract; \<^verbatim>\<open>InitialState\<close> loads a page and installs
  \<^verbatim>\<open>FinalState\<close>, which stores the page source and marks the run succeeded.
\<close>

definition MyDriverState_cls :: pyclass where
  "MyDriverState_cls =
     \<lparr>cls_name = ''MyDriverState'',
      cls_mro = [''MyDriverState'', ''DriverState'', ''ABC'', ''Generic'', ''object''],
      cls_registered = [],
      cls_abstractmethods = [''run''],
      cls_ctor = DriverState_init\<rparr>"

definition InitialState_cls :: pyclass where
  "InitialState_cls =
     \<lparr>cls_name = ''InitialState'',
      cls_mro = [''InitialState'', ''MyDriverState'', ''DriverState'', ''ABC'', ''Generic'', ''object''],
      cls_registered = [],
      cls_abstractmethods = [],
      cls_ctor = DriverState_init\<rparr>"

definition FinalState_cls :: pyclass where
  "FinalState_cls =
     \<lparr>cls_name = ''FinalState'',
      cls_mro = [''FinalState'', ''MyDriverState'', ''DriverState'', ''ABC'', ''Generic'', ''object''],
      cls_registered = [],
      cls_abstractmethods = [],
      cls_ctor = DriverState_init\<rparr>"

definition my_prog :: "(string, string option) prog" where
  "my_prog n c r =
     (if cls_name c = ''InitialState'' then [SetState FinalState_cls]
      else if cls_name c = ''FinalState'' then [SetOutput (Some ''<html>''), SetRunStatus SUCCEED]
      else [])"




text \<open>Steps that fail: at once, or after installing the next state.\<close>

definition failing_prog :: "pyexn \<Rightarrow> (string, string option) prog" where
  "failing_prog e n c r = [RaiseExc e]"

definition switching_prog :: "pyexn \<Rightarrow> (string, string option) prog" where
  "switching_prog e n c r = [SetState FinalState_cls, RaiseExc e]"

text \<open>
  A record as \<^verbatim>\<open>ContextStatusSchema(input_data=..., output_data=...)\<close> builds it, and the
  object \<^verbatim>\<open>Webscrapper.__init__\<close> builds: an empty queue, no futures yet.
\<close>

definition blank_context_status :: "'i \<Rightarrow> 'o \<Rightarrow> ('i, 'o) ContextStatusSchema" where
  "blank_context_status i out =
     \<lparr>status = INITIALIZED, error = None, current_state = None,
      input_data = i, output_data = out, tmp_data = []\<rparr>"

definition new_Webscrapper :: "int \<Rightarrow> (rid \<Rightarrow> ('i, 'o) ContextStatusSchema) \<Rightarrow> ('i, 'o) webscrapper" where
  "new_Webscrapper n heap =
     \<lparr>threads_num = n, driver_queue = [], unfinished_tasks = 0,
      contexts = (\<lambda>d. \<lparr>state = None, context_status = None, has_quit = False\<rparr>),
      statuses = heap, scraping_contexts = [], futures = [], fstates = (\<lambda>f. PENDING),
      status_contexts = [], trace = [], ticks = 0\<rparr>"

definition my_heap :: "rid \<Rightarrow> (string, string option) ContextStatusSchema" where
  "my_heap r = blank_context_status ''python'' None"

text \<open>
  The example after the pool of one driver has been filled, and then with that driver
  taken by a worker and bound to record 0 (where \<^verbatim>\<open>scrape_item\<close> enters its loop).
\<close>

definition pooled_ws :: "(string, string option) webscrapper" where
  "pooled_ws =
     (new_Webscrapper 1 my_heap)
       \<lparr>driver_queue := [0], unfinished_tasks := 1,
        contexts := (\<lambda>d. \<lparr>state = None, context_status = None, has_quit = False\<rparr>)
          (0 := \<lparr>state = Some \<lparr>state_cls = InitialState_cls, driver_context = 0\<rparr>,
                 context_status = None, has_quit = False\<rparr>),
        trace := [QueuePut 0]\<rparr>"

definition bound_ws :: "(string, string option) webscrapper" where
  "bound_ws =
     pooled_ws
       \<lparr>driver_queue := [],
        contexts := (contexts pooled_ws)
          (0 := (contexts pooled_ws 0)\<lparr>context_status := Some 0\<rparr>),
        trace := [QueuePut 0, QueueGet 0]\<rparr>"

text \<open>
  A step graph whose second step fails: \<^verbatim>\<open>InitialState\<close> installs \<^verbatim>\<open>FinalState\<close>, whose
  \<^verbatim>\<open>run\<close> raises; and the example as that run leaves it.
\<close>

definition late_failing_prog :: "pyexn \<Rightarrow> (string, string option) prog" where
  "late_failing_prog e n c r =
     (if cls_name c = ''InitialState'' then [SetState FinalState_cls] else [RaiseExc e])"

definition raised_ws :: "(string, string option) webscrapper" where
  "raised_ws = bound_ws\<lparr>contexts := (contexts bound_ws)
           (0 := (contexts bound_ws 0)\<lparr>state := Some \<lparr>state_cls = FinalState_cls, driver_context = 0\<rparr>\<rparr>),
         statuses := (statuses bound_ws)
           (0 := \<lparr>status = INITIALIZED, error = None, current_state = Some ''FinalState'',
                  input_data = ''python'', output_data = None, tmp_data = []\<rparr>),
         trace := [QueuePut 0, QueueGet 0, StepRun 0 ''InitialState'' INITIALIZED,
                   StepRun 0 ''FinalState'' INITIALIZED],
         ticks := 2\<rparr>"

text \<open>
  The example with two records submitted and every work item run (three loop iterations
  allowed each), and the example with both futures cancelled before any worker took them.
\<close>

definition submitted_ws :: "(string, string option) prog \<Rightarrow> (string, string option) webscrapper" where
  "submitted_ws prog =
     (case create_and_submit_tasks 3 prog (pooled_ws\<lparr>scraping_contexts := [0, 1]\<rparr>) of
        None \<Rightarrow> pooled_ws
      | Some (res, s) \<Rightarrow> s)"

definition cancelled_ws :: "(string, string option) webscrapper" where
  "cancelled_ws = cancel_futures (submit_tasks (pooled_ws\<lparr>scraping_contexts := [0, 1]\<rparr>))"

text \<open>
  The example with one driver and two records of which the first names a page that
  cannot be loaded: the step that reads it raises (a Selenium error, say).
\<close>

definition poisoned_heap :: "rid \<Rightarrow> (string, string option) ContextStatusSchema" where
  "poisoned_heap r = blank_context_status (if r = 0 then ''bad'' else ''python'') None"


definition poisoned_ws :: "(string, string option) webscrapper" where
  "poisoned_ws = pooled_ws\<lparr>statuses := poisoned_heap, scraping_contexts := [0, 1]\<rparr>"

text \<open>
  The example's pool after a first drain; the example when no browser session could be
  created (\<^verbatim>\<open>setup_driver_context\<close> logs each failure and the pool stays empty), with one
  record to scrape.
\<close>

definition drained_ws :: "(string, string option) webscrapper" where
  "drained_ws = snd (clear_driver_queue pooled_ws)"

definition unpooled_ws :: "(string, string option) webscrapper" where
  "unpooled_ws = (new_Webscrapper 1 my_heap)\<lparr>scraping_contexts := [0]\<rparr>"

definition no_webdriver :: "nat \<Rightarrow> pyexn option" where
  "no_webdriver i = Some (OtherException ''WebDriverException'')"

text \<open>
  The example with two worker threads of which only the first got its driver, and two
  records submitted.
\<close>

definition half_pooled_ws :: "(string, string option) webscrapper" where
  "half_pooled_ws = pooled_ws\<lparr>threads_num := 2, scraping_contexts := [0, 1]\<rparr>"

section \<open>What the proofs observe\<close>

text \<open>The events that a call appended to the log.\<close>

definition new_events :: "('i, 'o) webscrapper \<Rightarrow> ('i, 'o) webscrapper \<Rightarrow> event list" where
  "new_events s s' = drop (length (trace s)) (trace s')"

fun pool_event :: "event \<Rightarrow> bool" where
  "pool_event (QueueGet d) = True"
| "pool_event (QueuePut d) = True"
| "pool_event e = False"

text \<open>
  What running steps leaves alone: the queue and its counter, the futures, the
  collected records, which record each context is bound to, the sessions, and the
  records' \<^verbatim>\<open>error\<close> fields; an installed state stays installed.
\<close>

definition step_frame :: "('i, 'o) webscrapper \<Rightarrow> ('i, 'o) webscrapper \<Rightarrow> bool" where
  "step_frame s s' =
     (driver_queue s' = driver_queue s \<and> threads_num s' = threads_num s \<and>
      unfinished_tasks s' = unfinished_tasks s \<and> futures s' = futures s \<and>
      fstates s' = fstates s \<and> status_contexts s' = status_contexts s \<and>
      scraping_contexts s' = scraping_contexts s \<and>
      (\<forall>x. context_status (contexts s' x) = context_status (contexts s x)) \<and>
      (\<forall>x. has_quit (contexts s' x) = has_quit (contexts s x)) \<and>
      (\<forall>x. state (contexts s x) \<noteq> None \<longrightarrow> state (contexts s' x) \<noteq> None) \<and>
      (\<forall>x. error (statuses s' x) = error (statuses s x)))"

section \<open>Steps and the driver context\<close>

lemma step_frame_refl: "step_frame s s"
  by (simp add: step_frame_def)

lemma step_frame_trans: "step_frame s s1 \<Longrightarrow> step_frame s1 s2 \<Longrightarrow> step_frame s s2"
  by (simp add: step_frame_def)

lemma set_state_frame:
  "set_state c d s = (res, s') \<Longrightarrow>
     step_frame s s' \<and> trace s' = trace s \<and> ticks s' = ticks s \<and> statuses s' = statuses s"
  by (auto simp: set_state_def step_frame_def split: if_splits result.splits)

lemma exec_action_frame:
  "exec_action a d s = (res, s') \<Longrightarrow>
     step_frame s s' \<and> trace s' = trace s \<and>
     (\<forall>x. current_state (statuses s' x) = current_state (statuses s x))"
  by (cases a)
     (auto simp: exec_action_def upd_status_def status_of_def step_frame_def set_state_def
           split: option.splits result.splits if_splits)

lemma exec_actions_frame:
  "exec_actions as d s = (res, s') \<Longrightarrow>
     step_frame s s' \<and> trace s' = trace s \<and>
     (\<forall>x. current_state (statuses s' x) = current_state (statuses s x))"
proof (induction as arbitrary: s)
  case Nil
  then show ?case by (simp add: step_frame_refl)
next
  case (Cons a as)
  obtain r1 s1 where a: "exec_action a d s = (r1, s1)" by (cases "exec_action a d s")
  note f1 = exec_action_frame [OF a]
  show ?case
  proof (cases r1)
    case (Raise e)
    with Cons.prems a f1 show ?thesis by simp
  next
    case (Return u)
    with Cons.prems a have "exec_actions as d s1 = (res, s')" by simp
    from Cons.IH [OF this] f1 show ?thesis
      by (auto intro: step_frame_trans)
  qed
qed

lemma DriverContext_run_installed:
  assumes "state (contexts s d) = Some st" and "context_status (contexts s d) = Some r"
    and "DriverContext_run prog d s = (res, s')"
  shows "step_frame s s' \<and>
         trace s' = trace s @ [StepRun d (cls_name (state_cls st)) (status (statuses s r))] \<and>
         current_state (statuses s' r) = Some (cls_name (state_cls st))"
proof -
  define s1 where "s1 = upd_status r (\<lambda>c. c\<lparr>current_state := Some (cls_name (state_cls st))\<rparr>) s"
  define s2 where "s2 = s1\<lparr>trace := trace s1 @ [StepRun d (cls_name (state_cls st)) (status (statuses s1 r))],
                            ticks := Suc (ticks s1)\<rparr>"
  have run: "exec_actions (prog (ticks s) (state_cls st) (statuses s2 r)) (driver_context st) s2 = (res, s')"
    using assms by (simp add: DriverContext_run_def status_of_def s1_def s2_def Let_def)
  have f2: "step_frame s s2"
    by (simp add: step_frame_def s2_def s1_def upd_status_def)
  have t2: "trace s2 = trace s @ [StepRun d (cls_name (state_cls st)) (status (statuses s r))]"
    by (simp add: s2_def s1_def upd_status_def)
  have c2: "current_state (statuses s2 r) = Some (cls_name (state_cls st))"
    by (simp add: s2_def s1_def upd_status_def)
  from exec_actions_frame [OF run] f2 t2 c2 show ?thesis
    by (auto intro: step_frame_trans)
qed

lemma DriverContext_run_frame:
  assumes "DriverContext_run prog d s = (res, s')"
  shows "step_frame s s'"
proof (cases "state (contexts s d)")
  case None
  with assms show ?thesis by (simp add: DriverContext_run_def step_frame_refl)
next
  case (Some st)
  show ?thesis
  proof (cases "context_status (contexts s d)")
    case None
    with Some assms show ?thesis
      by (simp add: DriverContext_run_def status_of_def step_frame_refl)
  next
    case (Some r)
    from DriverContext_run_installed [OF \<open>state (contexts s d) = Some st\<close> Some assms]
    show ?thesis by simp
  qed
qed


lemma has_finished_bound:
  "context_status (contexts s d) = Some r \<Longrightarrow>
   has_finished d s = Return (status (statuses s r) \<in> {SUCCEED, FAILED, CRITICAL, CANCELLED})"
  by (simp add: has_finished_def status_of_def)

lemma run_loop_inv:
  assumes "run_loop fuel prog d s = Some (res, s')"
    and "context_status (contexts s d) = Some r"
  shows "step_frame s s' \<and>
         (\<exists>evs. trace s' = trace s @ evs \<and>
            (\<forall>e \<in> set evs. \<exists>n x. e = StepRun d n x \<and> x \<notin> {SUCCEED, FAILED, CRITICAL, CANCELLED})) \<and>
         (res = Return () \<longrightarrow> status (statuses s' r) \<in> {SUCCEED, FAILED, CRITICAL, CANCELLED})"
  using assms
proof (induction fuel arbitrary: s)
  case 0
  then show ?case by simp
next
  case (Suc fuel)
  note hf = has_finished_bound [OF Suc.prems(2)]
  show ?case
  proof (cases "status (statuses s r) \<in> {SUCCEED, FAILED, CRITICAL, CANCELLED}")
    case True
    with Suc.prems hf have "res = Return ()" "s' = s" by auto
    with True show ?thesis by (simp add: step_frame_refl)
  next
    case False
    obtain r1 s1 where run: "DriverContext_run prog d s = (r1, s1)"
      by (cases "DriverContext_run prog d s")
    have f1: "step_frame s s1" by (rule DriverContext_run_frame [OF run])
    have t1: "\<exists>evs. trace s1 = trace s @ evs \<and>
            (\<forall>e \<in> set evs. \<exists>n x. e = StepRun d n x \<and> x \<notin> {SUCCEED, FAILED, CRITICAL, CANCELLED})"
    proof (cases "state (contexts s d)")
      case None
      with run show ?thesis by (simp add: DriverContext_run_def)
    next
      case (Some st)
      from DriverContext_run_installed [OF Some Suc.prems(2) run] False
      show ?thesis by simp
    qed
    show ?thesis
    proof (cases r1)
      case (Raise e)
      with Suc.prems hf False run have "res = Raise e" "s' = s1" by auto
      with f1 t1 show ?thesis by simp
    next
      case (Return u)
      with Suc.prems hf False run have rec: "run_loop fuel prog d s1 = Some (res, s')" by auto
      from f1 Suc.prems(2) have b1: "context_status (contexts s1 d) = Some r"
        by (simp add: step_frame_def)
      from Suc.IH [OF rec b1] obtain evs2 where
        f2: "step_frame s1 s'" and
        t2: "trace s' = trace s1 @ evs2"
            "\<forall>e \<in> set evs2. \<exists>n x. e = StepRun d n x \<and> x \<notin> {SUCCEED, FAILED, CRITICAL, CANCELLED}" and
        fin: "res = Return () \<longrightarrow> status (statuses s' r) \<in> {SUCCEED, FAILED, CRITICAL, CANCELLED}"
        by blast
      from t1 obtain evs1 where
        t1': "trace s1 = trace s @ evs1"
             "\<forall>e \<in> set evs1. \<exists>n x. e = StepRun d n x \<and> x \<notin> {SUCCEED, FAILED, CRITICAL, CANCELLED}"
        by blast
      have "trace s' = trace s @ (evs1 @ evs2)" using t1' t2 by simp
      moreover have "\<forall>e \<in> set (evs1 @ evs2). \<exists>n x. e = StepRun d n x \<and> x \<notin> {SUCCEED, FAILED, CRITICAL, CANCELLED}"
        using t1' t2 by auto
      ultimately show ?thesis using f1 f2 fin by (blast intro: step_frame_trans)
    qed
  qed
qed

lemma run_loop_raise:
  assumes "run_loop fuel prog d s = Some (Raise e, s')"
    and "context_status (contexts s d) = Some r"
    and "state (contexts s d) \<noteq> None"
  shows "\<exists>n x. trace s' \<noteq> trace s \<and> last (trace s') = StepRun d n x \<and>
               current_state (statuses s' r) = Some n"
  using assms
proof (induction fuel arbitrary: s)
  case 0
  then show ?case by simp
next
  case (Suc fuel)
  note hf = has_finished_bound [OF Suc.prems(2)]
  from Suc.prems(3) obtain st where st: "state (contexts s d) = Some st" by auto
  show ?case
  proof (cases "status (statuses s r) \<in> {SUCCEED, FAILED, CRITICAL, CANCELLED}")
    case True
    with Suc.prems hf show ?thesis by auto
  next
    case False
    obtain r1 s1 where run: "DriverContext_run prog d s = (r1, s1)"
      by (cases "DriverContext_run prog d s")
    note i1 = DriverContext_run_installed [OF st Suc.prems(2) run]
    show ?thesis
    proof (cases r1)
      case (Raise e1)
      with Suc.prems hf False run have "e = e1" "s' = s1" by auto
      with i1 show ?thesis by simp
    next
      case (Return u)
      with Suc.prems hf False run have rec: "run_loop fuel prog d s1 = Some (Raise e, s')" by auto
      from i1 Suc.prems(2) have b1: "context_status (contexts s1 d) = Some r"
        by (simp add: step_frame_def)
      from i1 Suc.prems(3) have b2: "state (contexts s1 d) \<noteq> None"
        by (simp add: step_frame_def)
      from Suc.IH [OF rec b1 b2] obtain n x where
        l: "trace s' \<noteq> trace s1" "last (trace s') = StepRun d n x"
           "current_state (statuses s' r) = Some n" by blast
      from run_loop_inv [OF rec b1] obtain evs where "trace s' = trace s1 @ evs" by blast
      with i1 have "trace s' \<noteq> trace s" by simp
      with l show ?thesis by blast
    qed
  qed
qed

subsection \<open>Claim C9: set_state\<close>




subsection \<open>Claim C10: the record names the running step\<close>

text \<open>
  Claim C10: for a context with a state installed and a record bound, \<^verbatim>\<open>run\<close> writes the
  class name of the installed state into the record's \<^verbatim>\<open>current_state\<close> and then executes
  the step on the record so updated; whatever the step does, and whether it returns or
  raises, \<^verbatim>\<open>current_state\<close> holds that name afterwards. Whenever the worker's loop ends with
  an exception, a step was run, and \<^verbatim>\<open>current_state\<close> names the step run last, the one
  that raised.
\<close>

theorem run_names_the_running_step:
  assumes "state (contexts s d) = Some st" and "context_status (contexts s d) = Some r"
  shows "current_state (statuses (snd (DriverContext_run prog d s)) r) = Some (cls_name (state_cls st)) \<and>
         (\<exists>s1. statuses s1 = (statuses s)
                  (r := (statuses s r)\<lparr>current_state := Some (cls_name (state_cls st))\<rparr>) \<and>
               DriverContext_run prog d s
                 = exec_actions (prog (ticks s) (state_cls st) (statuses s1 r)) (driver_context st) s1) \<and>
         (\<forall>fuel e s'. run_loop fuel prog d s = Some (Raise e, s') \<longrightarrow>
            trace s' \<noteq> trace s \<and>
            (\<exists>n x. last (trace s') = StepRun d n x \<and> current_state (statuses s' r) = Some n))"
proof -
  obtain res s' where run: "DriverContext_run prog d s = (res, s')"
    by (cases "DriverContext_run prog d s")
  from DriverContext_run_installed [OF assms run]
  have a: "current_state (statuses (snd (DriverContext_run prog d s)) r) = Some (cls_name (state_cls st))"
    using run by simp
  define s1 where "s1 = upd_status r (\<lambda>c. c\<lparr>current_state := Some (cls_name (state_cls st))\<rparr>) s"
  define s2 where "s2 = s1\<lparr>trace := trace s1 @ [StepRun d (cls_name (state_cls st)) (status (statuses s1 r))],
                            ticks := Suc (ticks s1)\<rparr>"
  have "statuses s2 = (statuses s)(r := (statuses s r)\<lparr>current_state := Some (cls_name (state_cls st))\<rparr>)"
    by (simp add: s2_def s1_def upd_status_def)
  moreover have "DriverContext_run prog d s
      = exec_actions (prog (ticks s) (state_cls st) (statuses s2 r)) (driver_context st) s2"
    using assms by (simp add: DriverContext_run_def status_of_def s1_def s2_def Let_def)
  ultimately have b: "\<exists>s1. statuses s1 = (statuses s)
                  (r := (statuses s r)\<lparr>current_state := Some (cls_name (state_cls st))\<rparr>) \<and>
               DriverContext_run prog d s
                 = exec_actions (prog (ticks s) (state_cls st) (statuses s1 r)) (driver_context st) s1"
    by blast
  have c: "\<forall>fuel e s'. run_loop fuel prog d s = Some (Raise e, s') \<longrightarrow>
            trace s' \<noteq> trace s \<and>
            (\<exists>n x. last (trace s') = StepRun d n x \<and> current_state (statuses s' r) = Some n)"
    using run_loop_raise [OF _ assms(2)] assms(1) by blast
  from a b c show ?thesis by blast
qed

theorem run_names_the_running_step_witness:
  "state (contexts bound_ws 0) = Some \<lparr>state_cls = InitialState_cls, driver_context = 0\<rparr> \<and>
   context_status (contexts bound_ws 0) = Some 0 \<and>
   fst (DriverContext_run (switching_prog (OtherException ''boom'')) 0 bound_ws)
     = Raise (OtherException ''boom'') \<and>
   state (contexts (snd (DriverContext_run (switching_prog (OtherException ''boom'')) 0 bound_ws)) 0)
     = Some \<lparr>state_cls = FinalState_cls, driver_context = 0\<rparr> \<and>
   current_state (statuses (snd (DriverContext_run (switching_prog (OtherException ''boom'')) 0 bound_ws)) 0)
     = Some ''InitialState''"
  using run_names_the_running_step
          [of bound_ws 0 "\<lparr>state_cls = InitialState_cls, driver_context = 0\<rparr>" 0
              "switching_prog (OtherException ''boom'')"]
  by (simp add: bound_ws_def pooled_ws_def new_Webscrapper_def DriverContext_run_def status_of_def
        upd_status_def switching_prog_def exec_action_def set_state_def instantiate_def issubclass_def
        InitialState_cls_def FinalState_cls_def my_heap_def blank_context_status_def)

subsection \<open>Claim C5: the loop runs steps until the status is terminal\<close>

lemma new_events_append: "trace s' = trace s @ evs \<Longrightarrow> new_events s s' = evs"
  by (simp add: new_events_def)

lemma run_loop_unfold:
  assumes "run_loop fuel prog d s = Some (res, s')" and "context_status (contexts s d) = Some r"
    and "status (statuses s r) \<notin> {SUCCEED, FAILED, CRITICAL, CANCELLED}"
  shows "(\<forall>e s1. DriverContext_run prog d s = (Raise e, s1) \<longrightarrow> res = Raise e \<and> s' = s1) \<and>
         (\<forall>u s1. DriverContext_run prog d s = (Return u, s1) \<longrightarrow>
            run_loop (fuel - 1) prog d s1 = Some (res, s'))"
proof -
  obtain n where fuel: "fuel = Suc n" using assms(1) by (cases fuel) auto
  note hf = has_finished_bound [OF assms(2)]
  from assms(1) hf fuel assms(3) show ?thesis by auto
qed

lemma DriverContext_run_trace:
  assumes "DriverContext_run prog d s = (res, s')" and "context_status (contexts s d) = Some r"
  shows "\<exists>evs. trace s' = trace s @ evs"
proof (cases "state (contexts s d)")
  case None
  with assms(1) show ?thesis by (simp add: DriverContext_run_def)
next
  case (Some st)
  from DriverContext_run_installed [OF Some assms(2) assms(1)] show ?thesis by simp
qed

lemma run_loop_raise_from_step:
  assumes "run_loop fuel prog d s = Some (Raise e, s')"
    and "context_status (contexts s d) = Some r"
  shows "\<exists>sk evs. trace sk = trace s @ evs \<and> step_frame s sk \<and>
           status (statuses sk r) \<notin> {SUCCEED, FAILED, CRITICAL, CANCELLED} \<and>
           DriverContext_run prog d sk = (Raise e, s')"
  using assms
proof (induction fuel arbitrary: s)
  case 0
  then show ?case by simp
next
  case (Suc fuel)
  note hf = has_finished_bound [OF Suc.prems(2)]
  show ?case
  proof (cases "status (statuses s r) \<in> {SUCCEED, FAILED, CRITICAL, CANCELLED}")
    case True
    with Suc.prems hf show ?thesis by auto
  next
    case False
    obtain r1 s1 where run: "DriverContext_run prog d s = (r1, s1)"
      by (cases "DriverContext_run prog d s")
    have f1: "step_frame s s1" by (rule DriverContext_run_frame [OF run])
    from DriverContext_run_trace [OF run Suc.prems(2)] obtain evs1 where
      t1: "trace s1 = trace s @ evs1" by blast
    show ?thesis
    proof (cases r1)
      case (Raise e1)
      with Suc.prems hf False run have "e = e1" "s' = s1" by auto
      with run Raise False have
        "trace s = trace s @ [] \<and> step_frame s s \<and>
           status (statuses s r) \<notin> {SUCCEED, FAILED, CRITICAL, CANCELLED} \<and>
           DriverContext_run prog d s = (Raise e, s')"
        by (simp add: step_frame_refl)
      then show ?thesis by blast
    next
      case (Return u)
      with Suc.prems hf False run have rec: "run_loop fuel prog d s1 = Some (Raise e, s')" by auto
      from f1 Suc.prems(2) have b1: "context_status (contexts s1 d) = Some r"
        by (simp add: step_frame_def)
      from Suc.IH [OF rec b1] obtain sk evs2 where
        t2: "trace sk = trace s1 @ evs2" and f2: "step_frame s1 sk" and
        nt: "status (statuses sk r) \<notin> {SUCCEED, FAILED, CRITICAL, CANCELLED}" and
        lst: "DriverContext_run prog d sk = (Raise e, s')"
        by blast
      have "trace sk = trace s @ (evs1 @ evs2) \<and> step_frame s sk \<and>
           status (statuses sk r) \<notin> {SUCCEED, FAILED, CRITICAL, CANCELLED} \<and>
           DriverContext_run prog d sk = (Raise e, s')"
        using t1 t2 step_frame_trans [OF f1 f2] nt lst by simp
      then show ?thesis by blast
    qed
  qed
qed

text \<open>
  Claim C5: whenever the worker's loop returns for a context bound to a record, (1) a
  normal end leaves the record's status in the terminal set, (2) every step the loop ran
  was started while the status was outside the terminal set, (3) with a terminal status
  at entry the loop runs no step and changes nothing, (4) with a status outside the
  terminal set and a state installed the loop does run that state's step first, (5) with
  a status outside the terminal set, a first step that raises ends the loop there, with
  that exception and in the state the step left, and a first step that returns is
  followed by the loop run from the state the step left, and (6) whenever the loop ends
  with an exception, that exception was raised by a step, run in a state the loop had
  reached with the status outside the terminal set, and the loop ends in the state that
  step left: nothing runs after it.
\<close>

theorem run_loop_runs_until_terminal:
  assumes "run_loop fuel prog d s = Some (res, s')" and "context_status (contexts s d) = Some r"
  shows "(res = Return () \<longrightarrow> status (statuses s' r) \<in> {SUCCEED, FAILED, CRITICAL, CANCELLED}) \<and>
         (\<forall>e \<in> set (new_events s s').
            \<exists>n x. e = StepRun d n x \<and> x \<notin> {SUCCEED, FAILED, CRITICAL, CANCELLED}) \<and>
         (status (statuses s r) \<in> {SUCCEED, FAILED, CRITICAL, CANCELLED} \<longrightarrow>
            res = Return () \<and> s' = s) \<and>
         (status (statuses s r) \<notin> {SUCCEED, FAILED, CRITICAL, CANCELLED} \<longrightarrow>
            (\<forall>st. state (contexts s d) = Some st \<longrightarrow>
               (\<exists>evs. new_events s s'
                  = StepRun d (cls_name (state_cls st)) (status (statuses s r)) # evs))) \<and>
         (status (statuses s r) \<notin> {SUCCEED, FAILED, CRITICAL, CANCELLED} \<longrightarrow>
            (\<forall>e s1. DriverContext_run prog d s = (Raise e, s1) \<longrightarrow> res = Raise e \<and> s' = s1) \<and>
            (\<forall>u s1. DriverContext_run prog d s = (Return u, s1) \<longrightarrow>
               run_loop (fuel - 1) prog d s1 = Some (res, s'))) \<and>
         (\<forall>e. res = Raise e \<longrightarrow>
            (\<exists>sk evs. trace sk = trace s @ evs \<and> step_frame s sk \<and>
               status (statuses sk r) \<notin> {SUCCEED, FAILED, CRITICAL, CANCELLED} \<and>
               DriverContext_run prog d sk = (Raise e, s')))"
proof -
  from run_loop_inv [OF assms] obtain evs where
    tr: "trace s' = trace s @ evs" and
    ev: "\<forall>e \<in> set evs. \<exists>n x. e = StepRun d n x \<and> x \<notin> {SUCCEED, FAILED, CRITICAL, CANCELLED}" and
    fin: "res = Return () \<longrightarrow> status (statuses s' r) \<in> {SUCCEED, FAILED, CRITICAL, CANCELLED}"
    by blast
  obtain n where fuel: "fuel = Suc n" using assms(1) by (cases fuel) auto
  note hf = has_finished_bound [OF assms(2)]
  have b: "\<forall>e \<in> set (new_events s s').
            \<exists>n x. e = StepRun d n x \<and> x \<notin> {SUCCEED, FAILED, CRITICAL, CANCELLED}"
    using ev new_events_append [OF tr] by simp
  have c: "status (statuses s r) \<in> {SUCCEED, FAILED, CRITICAL, CANCELLED} \<longrightarrow> res = Return () \<and> s' = s"
    using assms(1) hf fuel by auto
  have d0: "\<exists>evs. new_events s s' = StepRun d (cls_name (state_cls st)) (status (statuses s r)) # evs"
    if nt: "status (statuses s r) \<notin> {SUCCEED, FAILED, CRITICAL, CANCELLED}"
      and st: "state (contexts s d) = Some st" for st
  proof -
    obtain r1 s1 where run: "DriverContext_run prog d s = (r1, s1)"
      by (cases "DriverContext_run prog d s")
    note i1 = DriverContext_run_installed [OF st assms(2) run]
    show ?thesis
    proof (cases r1)
      case (Raise e)
      with assms(1) hf fuel nt run have "s' = s1" by auto
      with i1 show ?thesis by (simp add: new_events_def)
    next
      case (Return u)
      with assms(1) hf fuel nt run have rec: "run_loop n prog d s1 = Some (res, s')" by auto
      from i1 assms(2) have b1: "context_status (contexts s1 d) = Some r"
        by (simp add: step_frame_def)
      from run_loop_inv [OF rec b1] obtain evs2 where "trace s' = trace s1 @ evs2" by blast
      with i1 show ?thesis by (simp add: new_events_def)
    qed
  qed
  have d: "status (statuses s r) \<notin> {SUCCEED, FAILED, CRITICAL, CANCELLED} \<longrightarrow>
            (\<forall>st. state (contexts s d) = Some st \<longrightarrow>
               (\<exists>evs. new_events s s'
                  = StepRun d (cls_name (state_cls st)) (status (statuses s r)) # evs))"
    using d0 by blast
  have e: "status (statuses s r) \<notin> {SUCCEED, FAILED, CRITICAL, CANCELLED} \<longrightarrow>
            (\<forall>e s1. DriverContext_run prog d s = (Raise e, s1) \<longrightarrow> res = Raise e \<and> s' = s1) \<and>
            (\<forall>u s1. DriverContext_run prog d s = (Return u, s1) \<longrightarrow>
               run_loop (fuel - 1) prog d s1 = Some (res, s'))"
    using run_loop_unfold [OF assms] by blast
  have f: "\<forall>e. res = Raise e \<longrightarrow>
            (\<exists>sk evs. trace sk = trace s @ evs \<and> step_frame s sk \<and>
               status (statuses sk r) \<notin> {SUCCEED, FAILED, CRITICAL, CANCELLED} \<and>
               DriverContext_run prog d sk = (Raise e, s'))"
  proof (intro allI impI)
    fix e assume "res = Raise e"
    with assms(1) have "run_loop fuel prog d s = Some (Raise e, s')" by simp
    from run_loop_raise_from_step [OF this assms(2)]
    show "\<exists>sk evs. trace sk = trace s @ evs \<and> step_frame s sk \<and>
               status (statuses sk r) \<notin> {SUCCEED, FAILED, CRITICAL, CANCELLED} \<and>
               DriverContext_run prog d sk = (Raise e, s')" .
  qed
  show ?thesis
    by (rule conjI [OF fin conjI [OF b conjI [OF c conjI [OF d conjI [OF e f]]]]])
qed

theorem run_loop_runs_until_terminal_witness:
  "context_status (contexts bound_ws 0) = Some 0 \<and>
   status (statuses bound_ws 0) \<notin> {SUCCEED, FAILED, CRITICAL, CANCELLED} \<and>
   state (contexts bound_ws 0) = Some \<lparr>state_cls = InitialState_cls, driver_context = 0\<rparr> \<and>
   (case run_loop 3 my_prog 0 bound_ws of
      None \<Rightarrow> False
    | Some (res, s') \<Rightarrow>
        res = Return () \<and> status (statuses s' 0) = SUCCEED \<and>
        new_events bound_ws s'
          = [StepRun 0 ''InitialState'' INITIALIZED, StepRun 0 ''FinalState'' INITIALIZED] \<and>
        run_loop 3 my_prog 0 s' = Some (Return (), s')) \<and>
   (case run_loop 3 (late_failing_prog (OtherException ''boom'')) 0 bound_ws of
      None \<Rightarrow> False
    | Some (res, s') \<Rightarrow>
        res = Raise (OtherException ''boom'') \<and> status (statuses s' 0) = INITIALIZED \<and>
        new_events bound_ws s'
          = [StepRun 0 ''InitialState'' INITIALIZED, StepRun 0 ''FinalState'' INITIALIZED] \<and>
        (\<exists>s1. DriverContext_run (late_failing_prog (OtherException ''boom'')) 0 bound_ws
                 = (Return (), s1) \<and>
              DriverContext_run (late_failing_prog (OtherException ''boom'')) 0 s1
                 = (Raise (OtherException ''boom''), s') \<and>
              run_loop 2 (late_failing_prog (OtherException ''boom'')) 0 s1
                 = Some (Raise (OtherException ''boom''), s')))"
proof -
  have run: "run_loop 3 my_prog 0 bound_ws = Some (Return (),
      bound_ws\<lparr>contexts := (contexts bound_ws)
           (0 := (contexts bound_ws 0)\<lparr>state := Some \<lparr>state_cls = FinalState_cls, driver_context = 0\<rparr>\<rparr>),
         statuses := (statuses bound_ws)
           (0 := \<lparr>status = SUCCEED, error = None, current_state = Some ''FinalState'',
                  input_data = ''python'', output_data = Some ''<html>'', tmp_data = []\<rparr>),
         trace := [QueuePut 0, QueueGet 0, StepRun 0 ''InitialState'' INITIALIZED,
                   StepRun 0 ''FinalState'' INITIALIZED],
         ticks := 2\<rparr>)"
    by (simp add: numeral_3_eq_3 bound_ws_def pooled_ws_def new_Webscrapper_def has_finished_def
          DriverContext_run_def status_of_def upd_status_def my_prog_def exec_action_def
          set_state_def instantiate_def issubclass_def InitialState_cls_def FinalState_cls_def my_heap_def
          blank_context_status_def Let_def)
  have ok: "context_status (contexts bound_ws 0) = Some 0 \<and>
   status (statuses bound_ws 0) \<notin> {SUCCEED, FAILED, CRITICAL, CANCELLED} \<and>
   state (contexts bound_ws 0) = Some \<lparr>state_cls = InitialState_cls, driver_context = 0\<rparr> \<and>
   (case run_loop 3 my_prog 0 bound_ws of
      None \<Rightarrow> False
    | Some (res, s') \<Rightarrow>
        res = Return () \<and> status (statuses s' 0) = SUCCEED \<and>
        new_events bound_ws s'
          = [StepRun 0 ''InitialState'' INITIALIZED, StepRun 0 ''FinalState'' INITIALIZED] \<and>
        run_loop 3 my_prog 0 s' = Some (Return (), s'))"
    using run_loop_runs_until_terminal [OF run, of 0]
    apply (simp only: run)
    apply (simp add: bound_ws_def pooled_ws_def new_Webscrapper_def new_events_def my_heap_def
          blank_context_status_def has_finished_def status_of_def numeral_3_eq_3)
    done
  have bound: "context_status (contexts bound_ws 0) = Some 0"
    by (simp add: bound_ws_def pooled_ws_def new_Webscrapper_def)
  have nt: "status (statuses bound_ws 0) \<notin> {SUCCEED, FAILED, CRITICAL, CANCELLED}"
    by (simp add: bound_ws_def pooled_ws_def new_Webscrapper_def my_heap_def blank_context_status_def)
  have lrun: "run_loop 3 (late_failing_prog (OtherException ''boom'')) 0 bound_ws
      = Some (Raise (OtherException ''boom''), raised_ws)"
    by (simp add: numeral_3_eq_3 raised_ws_def bound_ws_def pooled_ws_def new_Webscrapper_def
          has_finished_def DriverContext_run_def status_of_def upd_status_def late_failing_prog_def
          exec_action_def set_state_def instantiate_def issubclass_def InitialState_cls_def
          FinalState_cls_def my_heap_def blank_context_status_def Let_def)
  obtain r1 s1 where first: "DriverContext_run (late_failing_prog (OtherException ''boom'')) 0 bound_ws = (r1, s1)"
    by (cases "DriverContext_run (late_failing_prog (OtherException ''boom'')) 0 bound_ws")
  have r1: "r1 = Return ()"
    using first
    by (simp add: bound_ws_def pooled_ws_def new_Webscrapper_def
          DriverContext_run_def status_of_def upd_status_def late_failing_prog_def
          exec_action_def set_state_def instantiate_def issubclass_def InitialState_cls_def
          FinalState_cls_def my_heap_def blank_context_status_def Let_def)
  note facts = run_loop_runs_until_terminal [OF lrun bound]
  note step = facts [THEN conjunct2, THEN conjunct2, THEN conjunct2, THEN conjunct2, THEN conjunct1,
      rule_format, OF nt]
  from step [THEN conjunct2, rule_format, of "()" s1] first r1
  have rest: "run_loop 2 (late_failing_prog (OtherException ''boom'')) 0 s1
      = Some (Raise (OtherException ''boom''), raised_ws)"
    by simp
  have b1: "context_status (contexts s1 0) = Some 0"
    using DriverContext_run_frame [OF first] bound by (simp add: step_frame_def)
  have nt1: "status (statuses s1 0) \<notin> {SUCCEED, FAILED, CRITICAL, CANCELLED}"
    using first
    by (auto simp add: bound_ws_def pooled_ws_def new_Webscrapper_def
          DriverContext_run_def status_of_def upd_status_def late_failing_prog_def
          exec_action_def set_state_def instantiate_def issubclass_def InitialState_cls_def
          FinalState_cls_def my_heap_def blank_context_status_def Let_def)
  have second: "DriverContext_run (late_failing_prog (OtherException ''boom'')) 0 s1
      = (Raise (OtherException ''boom''), raised_ws)"
    using first
    by (auto simp add: raised_ws_def bound_ws_def pooled_ws_def new_Webscrapper_def
          DriverContext_run_def status_of_def upd_status_def late_failing_prog_def
          exec_action_def set_state_def instantiate_def issubclass_def InitialState_cls_def
          FinalState_cls_def my_heap_def blank_context_status_def Let_def)
  have ev: "new_events bound_ws raised_ws
          = [StepRun 0 ''InitialState'' INITIALIZED, StepRun 0 ''FinalState'' INITIALIZED]"
    by (simp add: new_events_def raised_ws_def bound_ws_def pooled_ws_def new_Webscrapper_def)
  have st: "status (statuses raised_ws 0) = INITIALIZED"
    by (simp add: raised_ws_def)
  have late: "(case run_loop 3 (late_failing_prog (OtherException ''boom'')) 0 bound_ws of
      None \<Rightarrow> False
    | Some (res, s') \<Rightarrow>
        res = Raise (OtherException ''boom'') \<and> status (statuses s' 0) = INITIALIZED \<and>
        new_events bound_ws s'
          = [StepRun 0 ''InitialState'' INITIALIZED, StepRun 0 ''FinalState'' INITIALIZED] \<and>
        (\<exists>s1. DriverContext_run (late_failing_prog (OtherException ''boom'')) 0 bound_ws
                 = (Return (), s1) \<and>
              DriverContext_run (late_failing_prog (OtherException ''boom'')) 0 s1
                 = (Raise (OtherException ''boom''), s') \<and>
              run_loop 2 (late_failing_prog (OtherException ''boom'')) 0 s1
                 = Some (Raise (OtherException ''boom''), s')))"
    using first r1 second rest ev st by (simp add: lrun)
  show ?thesis
    by (rule conjI [OF ok [THEN conjunct1] conjI [OF ok [THEN conjunct2, THEN conjunct1]
          conjI [OF ok [THEN conjunct2, THEN conjunct2, THEN conjunct1]
            conjI [OF ok [THEN conjunct2, THEN conjunct2, THEN conjunct2] late]]]])
qed

section \<open>The worker and the pool\<close>

text \<open>The definitions that evaluating a worker on a given state unfolds.\<close>

lemmas worker_defs =
  scrape_item_def queue_get_def queue_put_def task_done_def handle_exception_def
  take_screenshot_def has_finished_def DriverContext_run_def status_of_def upd_status_def
  exec_action_def set_state_def instantiate_def issubclass_def Let_def

lemmas example_defs =
  pooled_ws_def bound_ws_def new_Webscrapper_def my_heap_def blank_context_status_def
  my_prog_def failing_prog_def switching_prog_def
  InitialState_cls_def FinalState_cls_def MyDriverState_cls_def DriverState_cls_def

text \<open>The example states are the ones the code reaches.\<close>

lemma example_states_reached:
  "initialize_driver_pool (\<lambda>i. None) InitialState_cls (new_Webscrapper 1 my_heap)
     = Some (Return (), pooled_ws)"
  "scrape_item_acquire 0 pooled_ws = (Return 0, bound_ws)"
  by (simp_all add: initialize_driver_pool_def generate_driver_context_def setup_driver_context_def
        scrape_item_acquire_def worker_defs example_defs)

lemma handle_exception_frame:
  assumes "handle_exception res d s = (pending, s')"
  shows "driver_queue s' = driver_queue s \<and> threads_num s' = threads_num s \<and>
         unfinished_tasks s' = unfinished_tasks s \<and> fstates s' = fstates s \<and>
         futures s' = futures s \<and> status_contexts s' = status_contexts s \<and>
         contexts s' = contexts s \<and>
         (\<forall>x. status (statuses s' x) = status (statuses s x)) \<and>
         (\<exists>evs. trace s' = trace s @ evs \<and> filter pool_event evs = [])"
  using assms
  by (auto simp: handle_exception_def status_of_def upd_status_def take_screenshot_def
           split: result.splits option.splits if_splits)

lemma StepRun_not_pool:
  "\<forall>e \<in> set evs. \<exists>n x. e = StepRun d n x \<and> P x \<Longrightarrow> filter pool_event evs = []"
  by (induction evs) auto

lemma scrape_item_empty:
  "driver_queue s = [] \<Longrightarrow>
   scrape_item fuel prog b s = Some (Raise QueueEmpty, s\<lparr>trace := trace s @ [QueueGetTimeout 60]\<rparr>)"
  by (simp add: scrape_item_def queue_get_def)

lemma scrape_item_acquired:
  assumes q: "driver_queue s = d # q"
    and run: "scrape_item fuel prog b s = Some (res, s')"
  shows "\<exists>evs. trace s' = trace s @ QueueGet d # evs @ [QueuePut d] \<and> filter pool_event evs = [] \<and>
               driver_queue s' = q @ [d] \<and> unfinished_tasks s' = unfinished_tasks s \<and>
               fstates s' = fstates s \<and> futures s' = futures s \<and>
               status_contexts s' = status_contexts s \<and> threads_num s' = threads_num s"
proof -
  define s2 where "s2 = s\<lparr>driver_queue := q, trace := trace s @ [QueueGet d],
      contexts := (contexts s)(d := (contexts s d)\<lparr>context_status := Some b\<rparr>)\<rparr>"
  have b2: "context_status (contexts s2 d) = Some b" by (simp add: s2_def)
  from run q obtain res0 s3 where loop: "run_loop fuel prog d s2 = Some (res0, s3)"
    by (auto simp: scrape_item_def queue_get_def s2_def Let_def split: option.splits)
  obtain pending s4 where h: "handle_exception res0 d s3 = (pending, s4)"
    by (cases "handle_exception res0 d s3")
  from run q loop h obtain s5 where put: "queue_put d s4 = Some s5"
    by (auto simp: scrape_item_def queue_get_def s2_def Let_def split: option.splits)
  from put have s5: "s5 = s4\<lparr>driver_queue := driver_queue s4 @ [d],
                   unfinished_tasks := Suc (unfinished_tasks s4),
                   trace := trace s4 @ [QueuePut d]\<rparr>"
    by (simp add: queue_put_def split: if_splits)
  have td: "task_done s5 = (Return (), s5\<lparr>unfinished_tasks := unfinished_tasks s4\<rparr>)"
    by (simp add: task_done_def s5)
  from run q loop h put td have s': "s' = s5\<lparr>unfinished_tasks := unfinished_tasks s4\<rparr>"
    by (auto simp: scrape_item_def queue_get_def s2_def Let_def split: option.splits)
  from run_loop_inv [OF loop b2] obtain evs1 where
    f3: "step_frame s2 s3" and t3: "trace s3 = trace s2 @ evs1" and
    e3: "\<forall>e \<in> set evs1. \<exists>n x. e = StepRun d n x \<and> x \<notin> {SUCCEED, FAILED, CRITICAL, CANCELLED}"
    by blast
  from handle_exception_frame [OF h] obtain evs2 where
    f4: "driver_queue s4 = driver_queue s3" "threads_num s4 = threads_num s3"
        "unfinished_tasks s4 = unfinished_tasks s3" "fstates s4 = fstates s3"
        "futures s4 = futures s3" "status_contexts s4 = status_contexts s3" and
    t4: "trace s4 = trace s3 @ evs2" "filter pool_event evs2 = []"
    by blast
  have "trace s' = trace s @ QueueGet d # (evs1 @ evs2) @ [QueuePut d]"
    using s' s5 t4 t3 by (simp add: s2_def)
  moreover have "filter pool_event (evs1 @ evs2) = []"
    using StepRun_not_pool [OF e3] t4 by simp
  moreover have "driver_queue s' = q @ [d]"
    using s' s5 f4 f3 by (simp add: step_frame_def s2_def)
  moreover have "unfinished_tasks s' = unfinished_tasks s"
    using s' s5 f4 f3 by (simp add: step_frame_def s2_def)
  moreover have "fstates s' = fstates s \<and> futures s' = futures s \<and>
      status_contexts s' = status_contexts s \<and> threads_num s' = threads_num s"
    using s' s5 f4 f3 by (simp add: step_frame_def s2_def)
  ultimately show ?thesis by blast
qed

text \<open>
  \<^verbatim>\<open>scrape_item\<close> leaves whenever its loop does, as long as the queue held no more drivers
  than its \<^verbatim>\<open>maxsize\<close>: the \<^verbatim>\<open>put\<close> of the \<^verbatim>\<open>finally\<close> clause then finds room.
\<close>

lemma scrape_item_leaves:
  assumes q: "driver_queue s = d # q"
    and room: "threads_num s \<le> 0 \<or> int (length (driver_queue s)) \<le> threads_num s"
    and loop: "run_loop fuel prog d
        (s\<lparr>driver_queue := q, trace := trace s @ [QueueGet d],
           contexts := (contexts s)(d := (contexts s d)\<lparr>context_status := Some b\<rparr>)\<rparr>)
      = Some (res0, s3)"
  shows "\<exists>res s'. scrape_item fuel prog b s = Some (res, s')"
proof -
  define s2 where "s2 = s\<lparr>driver_queue := q, trace := trace s @ [QueueGet d],
      contexts := (contexts s)(d := (contexts s d)\<lparr>context_status := Some b\<rparr>)\<rparr>"
  have b2: "context_status (contexts s2 d) = Some b" by (simp add: s2_def)
  from loop have loop2: "run_loop fuel prog d s2 = Some (res0, s3)" by (simp add: s2_def)
  obtain pending s4 where h: "handle_exception res0 d s3 = (pending, s4)"
    by (cases "handle_exception res0 d s3")
  from run_loop_inv [OF loop2 b2] handle_exception_frame [OF h]
  have "driver_queue s4 = q" "threads_num s4 = threads_num s"
    by (simp_all add: step_frame_def s2_def)
  with q room obtain s5 where put: "queue_put d s4 = Some s5"
    by (auto simp: queue_put_def)
  from q loop2 h put show ?thesis
    by (auto simp: scrape_item_def queue_get_def s2_def Let_def split: prod.splits result.splits option.splits)
qed

subsection \<open>Claim C4: one release for each acquisition\<close>

text \<open>
  Claim C4: whenever \<^verbatim>\<open>scrape_item\<close> leaves (with a record or with an exception, so on
  the paths of success, expected failure, unexpected failure and an exception that no
  clause catches), a driver it took from the queue has been put back exactly once and
  stands at the end of the queue; when the queue was empty nothing is taken and nothing
  put back. A work item whose future was cancelled is skipped by the executor: it never
  takes a driver.
\<close>

theorem scrape_item_releases_once:
  assumes "scrape_item fuel prog b s = Some (res, s')"
  shows "(\<forall>d q. driver_queue s = d # q \<longrightarrow>
            filter pool_event (new_events s s') = [QueueGet d, QueuePut d] \<and>
            driver_queue s' = q @ [d]) \<and>
         (driver_queue s = [] \<longrightarrow>
            filter pool_event (new_events s s') = [] \<and> driver_queue s' = [] \<and>
            res = Raise QueueEmpty) \<and>
         (\<forall>f. fstates s f = CANCELLED_F \<longrightarrow> run_work_item fuel prog f b s = Some s)"
proof -
  have a: "filter pool_event (new_events s s') = [QueueGet d, QueuePut d] \<and> driver_queue s' = q @ [d]"
    if "driver_queue s = d # q" for d q
  proof -
    from scrape_item_acquired [OF that assms] obtain evs where
      "trace s' = trace s @ QueueGet d # evs @ [QueuePut d]" "filter pool_event evs = []"
      "driver_queue s' = q @ [d]" by blast
    then show ?thesis by (simp add: new_events_def)
  qed
  have b: "filter pool_event (new_events s s') = [] \<and> driver_queue s' = [] \<and> res = Raise QueueEmpty"
    if "driver_queue s = []"
    using scrape_item_empty [OF that, of fuel prog b] assms that by (auto simp: new_events_def)
  have c: "\<forall>f. fstates s f = CANCELLED_F \<longrightarrow> run_work_item fuel prog f b s = Some s"
    by (simp add: run_work_item_def)
  from a b c show ?thesis by blast
qed

theorem scrape_item_releases_once_witness:
  "driver_queue pooled_ws = [0] \<and>
   fst (the (scrape_item 3 my_prog 0 pooled_ws)) = Return 0 \<and>
   filter pool_event (new_events pooled_ws (snd (the (scrape_item 3 my_prog 0 pooled_ws))))
     = [QueueGet 0, QueuePut 0] \<and>
   driver_queue (snd (the (scrape_item 3 my_prog 0 pooled_ws))) = [0] \<and>
   fst (the (scrape_item 3 (failing_prog (BaseExceptionOnly ''KeyboardInterrupt'')) 0 pooled_ws))
     = Raise (BaseExceptionOnly ''KeyboardInterrupt'') \<and>
   filter pool_event (new_events pooled_ws
       (snd (the (scrape_item 3 (failing_prog (BaseExceptionOnly ''KeyboardInterrupt'')) 0 pooled_ws))))
     = [QueueGet 0, QueuePut 0]"
proof -
  have q: "driver_queue pooled_ws = [0]" by (simp add: pooled_ws_def)
  have r1: "scrape_item 3 my_prog 0 pooled_ws \<noteq> None"
    and v1: "fst (the (scrape_item 3 my_prog 0 pooled_ws)) = Return 0"
    by (simp_all add: numeral_3_eq_3 worker_defs example_defs)
  have r2: "scrape_item 3 (failing_prog (BaseExceptionOnly ''KeyboardInterrupt'')) 0 pooled_ws \<noteq> None"
    and v2: "fst (the (scrape_item 3 (failing_prog (BaseExceptionOnly ''KeyboardInterrupt'')) 0 pooled_ws))
               = Raise (BaseExceptionOnly ''KeyboardInterrupt'')"
    by (simp_all add: numeral_3_eq_3 worker_defs example_defs)
  from r1 have e1: "scrape_item 3 my_prog 0 pooled_ws
      = Some (fst (the (scrape_item 3 my_prog 0 pooled_ws)), snd (the (scrape_item 3 my_prog 0 pooled_ws)))"
    by auto
  from r2 have e2: "scrape_item 3 (failing_prog (BaseExceptionOnly ''KeyboardInterrupt'')) 0 pooled_ws
      = Some (fst (the (scrape_item 3 (failing_prog (BaseExceptionOnly ''KeyboardInterrupt'')) 0 pooled_ws)),
              snd (the (scrape_item 3 (failing_prog (BaseExceptionOnly ''KeyboardInterrupt'')) 0 pooled_ws)))"
    by auto
  from scrape_item_releases_once [OF e1] scrape_item_releases_once [OF e2] q v1 v2
  show ?thesis by simp
qed

section \<open>The collector\<close>

lemma Future_cancel_fstates:
  "fstates (Future_cancel f s) g
     = (if g = f \<and> fstates s g = PENDING then CANCELLED_F else fstates s g)"
  by (cases "fstates s f") (auto simp: Future_cancel_def)

lemma Future_cancel_rest: "Future_cancel f s = s\<lparr>fstates := fstates (Future_cancel f s)\<rparr>"
  by (cases "fstates s f") (auto simp: Future_cancel_def)

lemma fold_Future_cancel_fstates:
  "fstates (fold Future_cancel fs s) g
     = (if g \<in> set fs \<and> fstates s g = PENDING then CANCELLED_F else fstates s g)"
  by (induction fs arbitrary: s) (auto simp: Future_cancel_fstates)

lemma fold_Future_cancel_rest:
  "fold Future_cancel fs s = s\<lparr>fstates := fstates (fold Future_cancel fs s)\<rparr>"
proof (induction fs arbitrary: s)
  case Nil
  show ?case by simp
next
  case (Cons f fs)
  have "fold Future_cancel (f # fs) s
      = (Future_cancel f s)\<lparr>fstates := fstates (fold Future_cancel (f # fs) s)\<rparr>"
    using Cons.IH [of "Future_cancel f s"] by simp
  also have "\<dots> = s\<lparr>fstates := fstates (fold Future_cancel (f # fs) s)\<rparr>"
    by (subst Future_cancel_rest) simp
  finally show ?case .
qed

lemma cancel_futures_eq:
  "cancel_futures s =
     s\<lparr>fstates := (\<lambda>g. if g \<in> fst ` set (futures s) \<and> fstates s g = PENDING
                        then CANCELLED_F else fstates s g)\<rparr>"
proof -
  have "fstates (fold Future_cancel (map fst (futures s)) s)
      = (\<lambda>g. if g \<in> fst ` set (futures s) \<and> fstates s g = PENDING then CANCELLED_F else fstates s g)"
    by (rule ext) (simp add: fold_Future_cancel_fstates)
  with fold_Future_cancel_rest [of "map fst (futures s)" s] show ?thesis
    by (simp add: cancel_futures_def)
qed

text \<open>Facts about the example states, by evaluation.\<close>

lemmas executor_defs =
  create_and_submit_tasks_def submit_tasks_def run_work_item_def finish_future_def
  submitted_ws_def cancelled_ws_def
  process_completed_future_def Future_result_def cancel_futures_eq add_context_status_def

lemma submitted_failing:
  "futures (submitted_ws (failing_prog e)) = [(0, 0), (1, 1)]"
  "fstates (submitted_ws (failing_prog (OtherException m))) 0 = FINISHED (Return 0)"
  "fstates (submitted_ws (failing_prog (OtherException m))) (Suc 0) = FINISHED (Return (Suc 0))"
  "error (statuses (submitted_ws (failing_prog (OtherException m))) 0) = Some (OtherException m)"
  "fstates (submitted_ws (failing_prog (WebScrapperException m))) 0 = FINISHED (Return 0)"
  "error (statuses (submitted_ws (failing_prog (WebScrapperException m))) 0) = Some (WebScrapperException m)"
  by (simp_all add: numeral_3_eq_3 executor_defs worker_defs example_defs)

lemma submitted_my_prog:
  "fstates (submitted_ws my_prog) 0 = FINISHED (Return 0)"
  "error (statuses (submitted_ws my_prog) 0) = None"
  "status (statuses (submitted_ws my_prog) 0) = SUCCEED"
  by (simp_all add: numeral_3_eq_3 executor_defs worker_defs example_defs)

lemma cancelled_ws_facts:
  "fstates cancelled_ws 0 = CANCELLED_F" "map_of (futures cancelled_ws) 0 = Some 0"
  by (simp_all add: executor_defs example_defs)

subsection \<open>Claim C2: the status the collector gives a completed worker's record\<close>

text \<open>
  Claim C2: for a future whose worker returned record \<open>r\<close>, if the record's error is a
  \<^verbatim>\<open>WebScrapperException\<close> the collector returns \<open>r\<close> with status \<^verbatim>\<open>FAILED\<close>, changes
  nothing else (no future is touched) and the collection loop goes on with the next
  future; if the error is any other \<^verbatim>\<open>Exception\<close> the collector returns \<open>r\<close> with status
  \<^verbatim>\<open>CRITICAL\<close> after calling \<^verbatim>\<open>cancel_futures\<close>, which cancels every future of the
  dictionary that is still pending; for a cancelled future the collector returns the
  submitted record with status \<^verbatim>\<open>CANCELLED\<close>.
\<close>

theorem process_completed_future_sets_status:
  "(\<forall>r e. fstates s f = FINISHED (Return r) \<and> error (statuses s r) = Some e \<and>
           is_WebScrapperException e \<longrightarrow>
      process_completed_future f s = Some (Return r, upd_status r (\<lambda>c. c\<lparr>status := FAILED\<rparr>) s) \<and>
      fstates (upd_status r (\<lambda>c. c\<lparr>status := FAILED\<rparr>) s) = fstates s \<and>
      process_completed_tasks (f # order) s
        = process_completed_tasks order
            (add_context_status r (upd_status r (\<lambda>c. c\<lparr>status := FAILED\<rparr>) s))) \<and>
   (\<forall>r e. fstates s f = FINISHED (Return r) \<and> error (statuses s r) = Some e \<and>
           \<not> is_WebScrapperException e \<and> is_Exception e \<longrightarrow>
      (\<exists>s'. process_completed_future f s = Some (Return r, s') \<and>
            status (statuses s' r) = CRITICAL \<and>
            s' = cancel_futures (upd_status r (\<lambda>c. c\<lparr>status := CRITICAL\<rparr>) s) \<and>
            (\<forall>g \<in> fst ` set (futures s).
               fstates s' g = (if fstates s g = PENDING then CANCELLED_F else fstates s g)))) \<and>
   (\<forall>r. fstates s f = CANCELLED_F \<and> map_of (futures s) f = Some r \<longrightarrow>
      (\<exists>s'. process_completed_future f s = Some (Return r, s') \<and>
            status (statuses s' r) = CANCELLED))"
  by (auto simp: process_completed_future_def Future_result_def cancel_futures_eq upd_status_def)

theorem process_completed_future_sets_status_witness:
  "fstates (submitted_ws (failing_prog (WebScrapperException ''not found''))) 0 = FINISHED (Return 0) \<and>
   error (statuses (submitted_ws (failing_prog (WebScrapperException ''not found''))) 0)
     = Some (WebScrapperException ''not found'') \<and>
   (\<exists>s'. process_completed_future 0 (submitted_ws (failing_prog (WebScrapperException ''not found'')))
           = Some (Return 0, s') \<and>
         status (statuses s' 0) = FAILED \<and>
         fstates s' = fstates (submitted_ws (failing_prog (WebScrapperException ''not found'')))) \<and>
   fstates (submitted_ws (failing_prog (OtherException ''boom''))) 0 = FINISHED (Return 0) \<and>
   error (statuses (submitted_ws (failing_prog (OtherException ''boom''))) 0)
     = Some (OtherException ''boom'') \<and>
   (\<exists>s'. process_completed_future 0 (submitted_ws (failing_prog (OtherException ''boom'')))
           = Some (Return 0, s') \<and>
         status (statuses s' 0) = CRITICAL \<and>
         s' = cancel_futures (upd_status 0 (\<lambda>c. c\<lparr>status := CRITICAL\<rparr>)
                (submitted_ws (failing_prog (OtherException ''boom''))))) \<and>
   fstates cancelled_ws 0 = CANCELLED_F \<and> map_of (futures cancelled_ws) 0 = Some 0 \<and>
   (\<exists>s'. process_completed_future 0 cancelled_ws = Some (Return 0, s') \<and>
         status (statuses s' 0) = CANCELLED)"
proof -
  note t1 = process_completed_future_sets_status
      [of "submitted_ws (failing_prog (WebScrapperException ''not found''))" 0 "[]",
       THEN conjunct1, rule_format, of 0 "WebScrapperException ''not found''"]
  note t2 = process_completed_future_sets_status
      [of "submitted_ws (failing_prog (OtherException ''boom''))" 0 "[]",
       THEN conjunct2, THEN conjunct1, rule_format, of 0 "OtherException ''boom''"]
  note t3 = process_completed_future_sets_status
      [of cancelled_ws 0 "[]", THEN conjunct2, THEN conjunct2, rule_format, of 0]
  from t1 have a: "\<exists>s'. process_completed_future 0 (submitted_ws (failing_prog (WebScrapperException ''not found'')))
           = Some (Return 0, s') \<and>
         status (statuses s' 0) = FAILED \<and>
         fstates s' = fstates (submitted_ws (failing_prog (WebScrapperException ''not found'')))"
    by (simp add: submitted_failing upd_status_def)
  from t2 have b: "\<exists>s'. process_completed_future 0 (submitted_ws (failing_prog (OtherException ''boom'')))
           = Some (Return 0, s') \<and>
         status (statuses s' 0) = CRITICAL \<and>
         s' = cancel_futures (upd_status 0 (\<lambda>c. c\<lparr>status := CRITICAL\<rparr>)
                (submitted_ws (failing_prog (OtherException ''boom''))))"
    by (simp add: submitted_failing)
  from t3 have c: "\<exists>s'. process_completed_future 0 cancelled_ws = Some (Return 0, s') \<and>
         status (statuses s' 0) = CANCELLED"
    by (simp add: cancelled_ws_facts)
  from a b c show ?thesis
    by (simp add: submitted_failing cancelled_ws_facts)
qed

subsection \<open>Claim C8: the scheduler never marks a record succeeded\<close>

lemma exec_actions_no_succeed:
  assumes "exec_actions as d s = (res, s')"
    and "SetRunStatus SUCCEED \<notin> set as"
    and "status (statuses s' x) = SUCCEED"
  shows "status (statuses s x) = SUCCEED"
  using assms
proof (induction as arbitrary: s)
  case Nil
  then show ?case by simp
next
  case (Cons a as)
  obtain r1 s1 where a: "exec_action a d s = (r1, s1)" by (cases "exec_action a d s")
  have one: "status (statuses s1 x) = SUCCEED \<Longrightarrow> status (statuses s x) = SUCCEED"
    using a Cons.prems(2)
    by (cases a)
       (auto simp: exec_action_def upd_status_def status_of_def set_state_def
             split: option.splits result.splits if_splits)
  show ?case
  proof (cases r1)
    case (Raise e)
    with Cons.prems a one show ?thesis by simp
  next
    case (Return u)
    with Cons.prems a have "exec_actions as d s1 = (res, s')" by simp
    from Cons.IH [OF this] Cons.prems one show ?thesis by simp
  qed
qed

lemma DriverContext_run_no_succeed:
  assumes "DriverContext_run prog d s = (res, s')"
    and "\<forall>n c rec. SetRunStatus SUCCEED \<notin> set (prog n c rec)"
    and "status (statuses s' x) = SUCCEED"
  shows "status (statuses s x) = SUCCEED"
proof (cases "state (contexts s d)")
  case None
  with assms show ?thesis by (simp add: DriverContext_run_def)
next
  case (Some st)
  show ?thesis
  proof (cases "context_status (contexts s d)")
    case None
    with Some assms show ?thesis by (simp add: DriverContext_run_def status_of_def)
  next
    case (Some r)
    define s1 where "s1 = upd_status r (\<lambda>c. c\<lparr>current_state := Some (cls_name (state_cls st))\<rparr>) s"
    define s2 where "s2 = s1\<lparr>trace := trace s1 @ [StepRun d (cls_name (state_cls st)) (status (statuses s1 r))],
                              ticks := Suc (ticks s1)\<rparr>"
    have run: "exec_actions (prog (ticks s) (state_cls st) (statuses s2 r)) (driver_context st) s2 = (res, s')"
      using assms(1) Some \<open>state (contexts s d) = Some st\<close>
      by (simp add: DriverContext_run_def status_of_def s1_def s2_def Let_def)
    from exec_actions_no_succeed [OF run] assms(2,3) have "status (statuses s2 x) = SUCCEED"
      by simp
    then show ?thesis by (simp add: s2_def s1_def upd_status_def split: if_splits)
  qed
qed

lemma run_loop_no_succeed:
  assumes "run_loop fuel prog d s = Some (res, s')"
    and "\<forall>n c rec. SetRunStatus SUCCEED \<notin> set (prog n c rec)"
    and "status (statuses s' x) = SUCCEED"
  shows "status (statuses s x) = SUCCEED"
  using assms
proof (induction fuel arbitrary: s)
  case 0
  then show ?case by simp
next
  case (Suc fuel)
  obtain r1 s1 where run: "DriverContext_run prog d s = (r1, s1)"
    by (cases "DriverContext_run prog d s")
  note one = DriverContext_run_no_succeed [OF run Suc.prems(2)]
  from Suc.prems(1) run consider "s' = s" | "s' = s1" | "run_loop fuel prog d s1 = Some (res, s')"
    by (auto split: result.splits bool.splits if_splits)
  then show ?case
  proof cases
    case 1
    with Suc.prems(3) show ?thesis by simp
  next
    case 2
    with Suc.prems(3) one show ?thesis by simp
  next
    case 3
    from Suc.IH [OF 3 Suc.prems(2,3)] one show ?thesis by simp
  qed
qed

lemma scrape_item_no_succeed:
  assumes run: "scrape_item fuel prog b s = Some (res, s')"
    and np: "\<forall>n c rec. SetRunStatus SUCCEED \<notin> set (prog n c rec)"
    and su: "status (statuses s' x) = SUCCEED"
  shows "status (statuses s x) = SUCCEED"
proof (cases "driver_queue s")
  case Nil
  from scrape_item_empty [OF Nil, of fuel prog b] run su show ?thesis by auto
next
  case (Cons d q)
  define s2 where "s2 = s\<lparr>driver_queue := q, trace := trace s @ [QueueGet d],
      contexts := (contexts s)(d := (contexts s d)\<lparr>context_status := Some b\<rparr>)\<rparr>"
  from run Cons obtain res0 s3 where loop: "run_loop fuel prog d s2 = Some (res0, s3)"
    by (auto simp: scrape_item_def queue_get_def s2_def Let_def split: option.splits)
  obtain pending s4 where h: "handle_exception res0 d s3 = (pending, s4)"
    by (cases "handle_exception res0 d s3")
  from run Cons loop h obtain s5 where put: "queue_put d s4 = Some s5"
    by (auto simp: scrape_item_def queue_get_def s2_def Let_def split: option.splits)
  from put have s5: "statuses s5 = statuses s4"
    by (auto simp: queue_put_def split: if_splits)
  from run Cons loop h put have "statuses s' = statuses s5"
    by (auto simp: scrape_item_def queue_get_def s2_def Let_def task_done_def
             split: option.splits if_splits)
  with su s5 handle_exception_frame [OF h] have "status (statuses s3 x) = SUCCEED" by simp
  from run_loop_no_succeed [OF loop np this] show ?thesis by (simp add: s2_def)
qed

text \<open>
  Claim C8: the collector never turns a status into \<^verbatim>\<open>SUCCEED\<close>; a status it changes
  becomes \<^verbatim>\<open>FAILED\<close>, \<^verbatim>\<open>CRITICAL\<close> or \<^verbatim>\<open>CANCELLED\<close>; a record that its worker returned
  with no error comes back as it is, nothing changed. The worker does not set
  \<^verbatim>\<open>SUCCEED\<close> either: when no step asks for it through \<^verbatim>\<open>set_run_status\<close>, no record
  is \<^verbatim>\<open>SUCCEED\<close> after \<^verbatim>\<open>scrape_item\<close> that was not before.
\<close>

theorem scheduler_never_sets_succeed:
  assumes "process_completed_future f s = Some (res, s')"
  shows "(\<forall>x. status (statuses s' x) = SUCCEED \<longrightarrow> status (statuses s x) = SUCCEED) \<and>
         (\<forall>x. status (statuses s' x) \<noteq> status (statuses s x) \<longrightarrow>
              status (statuses s' x) \<in> {FAILED, CRITICAL, CANCELLED}) \<and>
         (\<forall>r. fstates s f = FINISHED (Return r) \<and> error (statuses s r) = None \<longrightarrow>
              res = Return r \<and> s' = s) \<and>
         (\<forall>fuel prog b res2 s2 x.
              (\<forall>n c rec. SetRunStatus SUCCEED \<notin> set (prog n c rec)) \<and>
              scrape_item fuel prog b s = Some (res2, s2) \<and> status (statuses s2 x) = SUCCEED \<longrightarrow>
              status (statuses s x) = SUCCEED)"
proof -
  have coll: "(\<forall>x. status (statuses s' x) = SUCCEED \<longrightarrow> status (statuses s x) = SUCCEED) \<and>
         (\<forall>x. status (statuses s' x) \<noteq> status (statuses s x) \<longrightarrow>
              status (statuses s' x) \<in> {FAILED, CRITICAL, CANCELLED}) \<and>
         (\<forall>r. fstates s f = FINISHED (Return r) \<and> error (statuses s r) = None \<longrightarrow>
              res = Return r \<and> s' = s)"
    using assms
    by (auto simp: process_completed_future_def Future_result_def cancel_futures_eq upd_status_def
             split: future_state.splits result.splits option.splits if_splits)
  have work: "\<forall>fuel prog b res2 s2 x.
              (\<forall>n c rec. SetRunStatus SUCCEED \<notin> set (prog n c rec)) \<and>
              scrape_item fuel prog b s = Some (res2, s2) \<and> status (statuses s2 x) = SUCCEED \<longrightarrow>
              status (statuses s x) = SUCCEED"
    using scrape_item_no_succeed by blast
  from coll have c1: "\<forall>x. status (statuses s' x) = SUCCEED \<longrightarrow> status (statuses s x) = SUCCEED"
    by (rule conjunct1)
  from coll have c2: "\<forall>x. status (statuses s' x) \<noteq> status (statuses s x) \<longrightarrow>
              status (statuses s' x) \<in> {FAILED, CRITICAL, CANCELLED}"
    by (rule conjunct1 [OF conjunct2])
  from coll have c3: "\<forall>r. fstates s f = FINISHED (Return r) \<and> error (statuses s r) = None \<longrightarrow>
              res = Return r \<and> s' = s"
    by (rule conjunct2 [OF conjunct2])
  show ?thesis
    by (rule conjI [OF c1 conjI [OF c2 conjI [OF c3 work]]])
qed

theorem scheduler_never_sets_succeed_witness:
  "process_completed_future 0 (submitted_ws my_prog) = Some (Return 0, submitted_ws my_prog) \<and>
   fstates (submitted_ws my_prog) 0 = FINISHED (Return 0) \<and>
   error (statuses (submitted_ws my_prog) 0) = None \<and>
   status (statuses (submitted_ws my_prog) 0) = SUCCEED \<and>
   (\<exists>s'. process_completed_future 0 (submitted_ws (failing_prog (OtherException ''boom'')))
           = Some (Return 0, s') \<and>
         status (statuses s' 0) \<noteq> status (statuses (submitted_ws (failing_prog (OtherException ''boom''))) 0) \<and>
         status (statuses s' 0) \<in> {FAILED, CRITICAL, CANCELLED})"
proof -
  have run: "process_completed_future 0 (submitted_ws my_prog) = Some (Return 0, submitted_ws my_prog)"
    by (simp add: process_completed_future_def Future_result_def submitted_my_prog)
  have run2: "process_completed_future 0 (submitted_ws (failing_prog (OtherException ''boom'')))
      = Some (Return 0, cancel_futures (upd_status 0 (\<lambda>c. c\<lparr>status := CRITICAL\<rparr>)
                (submitted_ws (failing_prog (OtherException ''boom'')))))"
    by (simp add: process_completed_future_def Future_result_def submitted_failing)
  have ini: "status (statuses (submitted_ws (failing_prog (OtherException ''boom''))) 0) = INITIALIZED"
    by (simp add: numeral_3_eq_3 executor_defs worker_defs example_defs)
  have ch: "status (statuses (cancel_futures (upd_status 0 (\<lambda>c. c\<lparr>status := CRITICAL\<rparr>)
                (submitted_ws (failing_prog (OtherException ''boom''))))) 0) = CRITICAL"
    by (simp add: cancel_futures_eq upd_status_def)
  from scheduler_never_sets_succeed [OF run] scheduler_never_sets_succeed [OF run2] run run2 ini ch
  show ?thesis
    by (simp add: submitted_my_prog)
qed

subsection \<open>Claim C3: what an unexpected failure stops\<close>

lemma scrape_item_futures:
  assumes "scrape_item fuel prog b s = Some (res, s')"
  shows "fstates s' = fstates s \<and> futures s' = futures s"
proof (cases "driver_queue s")
  case Nil
  from scrape_item_empty [OF Nil, of fuel prog b] assms show ?thesis by auto
next
  case (Cons d q)
  from scrape_item_acquired [OF Cons assms] show ?thesis by blast
qed

lemma run_work_item_fstates:
  assumes "run_work_item fuel prog f r s = Some s'"
  shows "futures s' = futures s \<and> (\<forall>g. g \<noteq> f \<longrightarrow> fstates s' g = fstates s g) \<and>
         (fstates s f = PENDING \<longrightarrow> (\<exists>res. fstates s' f = FINISHED res)) \<and>
         (fstates s f \<noteq> PENDING \<longrightarrow> s' = s)"
proof (cases "fstates s f = PENDING")
  case False
  with assms show ?thesis by (cases "fstates s f") (auto simp: run_work_item_def)
next
  case True
  with assms obtain res s1 where
    run: "scrape_item fuel prog r (s\<lparr>fstates := (fstates s)(f := RUNNING)\<rparr>) = Some (res, s1)" and
    s': "s' = s1\<lparr>fstates := (fstates s1)(f := FINISHED res)\<rparr>"
    by (auto simp: run_work_item_def finish_future_def split: option.splits)
  from scrape_item_futures [OF run] s' True show ?thesis by auto
qed

lemma run_work_items_fstates:
  assumes "run_work_items fuel prog fs s = Some s'"
  shows "futures s' = futures s \<and>
         (\<forall>g. (fstates s g \<noteq> PENDING \<longrightarrow> fstates s' g = fstates s g) \<and>
              (g \<in> fst ` set fs \<longrightarrow> fstates s g = PENDING \<longrightarrow> (\<exists>res. fstates s' g = FINISHED res)))"
  using assms
proof (induction fs arbitrary: s)
  case Nil
  then show ?case by simp
next
  case (Cons p fs)
  obtain f r where p: "p = (f, r)" by (cases p)
  from Cons.prems p obtain s1 where
    one: "run_work_item fuel prog f r s = Some s1" and
    rest: "run_work_items fuel prog fs s1 = Some s'"
    by (auto split: option.splits)
  note a = run_work_item_fstates [OF one]
  note b = Cons.IH [OF rest]
  have fut: "futures s' = futures s" using a b by simp
  have keep: "fstates s' g = fstates s g" if "fstates s g \<noteq> PENDING" for g
  proof -
    from a that have "fstates s1 g = fstates s g" by (cases "g = f") auto
    with b that show ?thesis by simp
  qed
  have fin: "\<exists>res. fstates s' g = FINISHED res" if "g \<in> fst ` set (p # fs)" "fstates s g = PENDING" for g
  proof (cases "g = f")
    case True
    with a that obtain res where "fstates s1 g = FINISHED res" by auto
    with b show ?thesis by simp
  next
    case False
    with a have "fstates s1 g = fstates s g" by simp
    with b that False p show ?thesis by auto
  qed
  from fut keep fin show ?case by blast
qed

lemma create_and_submit_tasks_done:
  assumes "create_and_submit_tasks fuel prog s = Some (Return (), s')"
  shows "\<forall>g \<in> fst ` set (futures s'). \<exists>res. fstates s' g = FINISHED res"
proof -
  from assms have run:
    "run_work_items fuel prog (futures (submit_tasks s)) (submit_tasks s) = Some s'"
    by (auto simp: create_and_submit_tasks_def split: if_splits option.splits)
  from run_work_items_fstates [OF run] show ?thesis
    by (auto simp: submit_tasks_def)
qed

lemma process_completed_future_all_done:
  assumes "\<forall>g \<in> fst ` set (futures s). \<exists>res. fstates s g = FINISHED res"
    and "process_completed_future f s = Some (res, s')"
  shows "fstates s' = fstates s"
proof -
  have "fstates (cancel_futures (upd_status r u s)) g = fstates s g" for r u g
    using assms(1) by (auto simp: cancel_futures_eq upd_status_def)
  then have "fstates (cancel_futures (upd_status r u s)) = fstates s" for r u
    by (simp add: fun_eq_iff)
  with assms(2) show ?thesis
    by (auto simp: process_completed_future_def Future_result_def upd_status_def
             split: future_state.splits result.splits option.splits if_splits)
qed

text \<open>
  What the collector's cancellation does wherever it is called: a pending future is
  cancelled, is never started by the executor and gives the collector its record with
  status \<^verbatim>\<open>CANCELLED\<close>; a running or finished one is as it was. And where the code
  calls it: when \<^verbatim>\<open>create_and_submit_tasks\<close> has returned, every future is finished, so
  nothing is left for it to cancel.
\<close>

lemma cancel_on_critical_leaves_none_pending:
  "(\<forall>r e s'. fstates s f = FINISHED (Return r) \<and> error (statuses s r) = Some e \<and>
              \<not> is_WebScrapperException e \<and> is_Exception e \<and>
              process_completed_future f s = Some (Return r, s') \<longrightarrow>
      (\<forall>g \<in> fst ` set (futures s).
          fstates s' g \<noteq> PENDING \<and>
          (fstates s g \<noteq> PENDING \<longrightarrow> fstates s' g = fstates s g) \<and>
          (\<forall>fuel prog b. run_work_item fuel prog g b s' = Some s') \<and>
          (\<forall>b. fstates s' g = CANCELLED_F \<and> map_of (futures s') g = Some b \<longrightarrow>
               (\<exists>s''. process_completed_future g s' = Some (Return b, s'') \<and>
                      status (statuses s'' b) = CANCELLED)))) \<and>
   (\<forall>fuel prog s1. create_and_submit_tasks fuel prog s = Some (Return (), s1) \<longrightarrow>
      (\<forall>g \<in> fst ` set (futures s1). \<exists>res. fstates s1 g = FINISHED res) \<and>
      (\<forall>g res s2. process_completed_future g s1 = Some (res, s2) \<longrightarrow> fstates s2 = fstates s1))"
proof -
  have a: "fstates s' g \<noteq> PENDING \<and>
          (fstates s g \<noteq> PENDING \<longrightarrow> fstates s' g = fstates s g) \<and>
          (\<forall>fuel prog b. run_work_item fuel prog g b s' = Some s') \<and>
          (\<forall>b. fstates s' g = CANCELLED_F \<and> map_of (futures s') g = Some b \<longrightarrow>
               (\<exists>s''. process_completed_future g s' = Some (Return b, s'') \<and>
                      status (statuses s'' b) = CANCELLED))"
    if h: "fstates s f = FINISHED (Return r)" "error (statuses s r) = Some e"
          "\<not> is_WebScrapperException e" "is_Exception e"
          "process_completed_future f s = Some (Return r, s')"
       and g: "g \<in> fst ` set (futures s)" for r e s' g
  proof -
    from h have s': "s' = cancel_futures (upd_status r (\<lambda>c. c\<lparr>status := CRITICAL\<rparr>) s)"
      by (simp add: process_completed_future_def Future_result_def)
    have f': "fstates s' g = (if fstates s g = PENDING then CANCELLED_F else fstates s g)"
      using g by (simp add: s' cancel_futures_eq upd_status_def)
    then have np: "fstates s' g \<noteq> PENDING" by simp
    from np have nostart: "\<forall>fuel prog b. run_work_item fuel prog g b s' = Some s'"
      by (cases "fstates s' g") (auto simp: run_work_item_def)
    have canc: "\<forall>b. fstates s' g = CANCELLED_F \<and> map_of (futures s') g = Some b \<longrightarrow>
               (\<exists>s''. process_completed_future g s' = Some (Return b, s'') \<and>
                      status (statuses s'' b) = CANCELLED)"
      by (auto simp: process_completed_future_def Future_result_def upd_status_def)
    from f' np nostart canc show ?thesis by simp
  qed
  have a': "\<forall>r e s'. fstates s f = FINISHED (Return r) \<and> error (statuses s r) = Some e \<and>
              \<not> is_WebScrapperException e \<and> is_Exception e \<and>
              process_completed_future f s = Some (Return r, s') \<longrightarrow>
      (\<forall>g \<in> fst ` set (futures s).
          fstates s' g \<noteq> PENDING \<and>
          (fstates s g \<noteq> PENDING \<longrightarrow> fstates s' g = fstates s g) \<and>
          (\<forall>fuel prog b. run_work_item fuel prog g b s' = Some s') \<and>
          (\<forall>b. fstates s' g = CANCELLED_F \<and> map_of (futures s') g = Some b \<longrightarrow>
               (\<exists>s''. process_completed_future g s' = Some (Return b, s'') \<and>
                      status (statuses s'' b) = CANCELLED)))"
    using a by blast
  have b: "\<forall>fuel prog s1. create_and_submit_tasks fuel prog s = Some (Return (), s1) \<longrightarrow>
      (\<forall>g \<in> fst ` set (futures s1). \<exists>res. fstates s1 g = FINISHED res) \<and>
      (\<forall>g res s2. process_completed_future g s1 = Some (res, s2) \<longrightarrow> fstates s2 = fstates s1)"
  proof (intro allI impI)
    fix fuel prog s1
    assume c: "create_and_submit_tasks fuel prog s = Some (Return (), s1)"
    note d = create_and_submit_tasks_done [OF c]
    have "\<forall>g res s2. process_completed_future g s1 = Some (res, s2) \<longrightarrow> fstates s2 = fstates s1"
      using process_completed_future_all_done [OF d] by blast
    with d show "(\<forall>g \<in> fst ` set (futures s1). \<exists>res. fstates s1 g = FINISHED res) \<and>
      (\<forall>g res s2. process_completed_future g s1 = Some (res, s2) \<longrightarrow> fstates s2 = fstates s1)"
      by (rule conjI)
  qed
  show ?thesis by (rule conjI [OF a' b])
qed

lemma poisoned_ws_reached:
  "initialize_driver_pool (\<lambda>i. None) InitialState_cls
     ((new_Webscrapper 1 poisoned_heap)\<lparr>scraping_contexts := [0, 1]\<rparr>)
   = Some (Return (), poisoned_ws)"
  by (simp add: poisoned_ws_def initialize_driver_pool_def generate_driver_context_def
        setup_driver_context_def worker_defs example_defs)


section \<open>The drain\<close>

lemmas drain_defs =
  clear_driver_queue_def clear_driver_context_def clear_context_def queue_get_def task_done_def

lemma clear_driver_context_empty:
  "driver_queue s = [] \<Longrightarrow>
   clear_driver_context s = (Raise QueueEmpty, s\<lparr>trace := trace s @ [QueueGetTimeout 1000]\<rparr>)"
  by (simp add: clear_driver_context_def queue_get_def)

subsection \<open>Claim C7: draining an empty pool\<close>

text \<open>
  Claim C7 says that draining an empty pool closes nothing, changes nothing and does not
  block. The last part fails: \<^verbatim>\<open>_clear_driver_context\<close> calls \<^verbatim>\<open>get(timeout=1000)\<close>, so a
  second drain of the example's pool waits through that whole timeout before
  \<^verbatim>\<open>queue.Empty\<close> ends the loop.
\<close>

theorem clear_driver_queue_blocks_counterexample:
  "driver_queue drained_ws = [] \<and>
   new_events drained_ws (snd (clear_driver_queue drained_ws)) = [QueueGetTimeout 1000]"
  by (simp add: drained_ws_def drain_defs example_defs new_events_def)

text \<open>
  Claim C7 as amended: draining an empty pool returns normally, closes no session and
  leaves the pool, the contexts and everything else as they were; it waits through one
  \<^verbatim>\<open>get\<close> timeout of 1000 when \<open>threads_num\<close> is positive, and not at all otherwise.
\<close>

theorem clear_driver_queue_empty_pool:
  assumes "driver_queue s = []"
  shows "clear_driver_queue s
           = (Return (), s\<lparr>trace := trace s @ (if 0 < threads_num s then [QueueGetTimeout 1000] else [])\<rparr>) \<and>
         contexts (snd (clear_driver_queue s)) = contexts s \<and>
         driver_queue (snd (clear_driver_queue s)) = [] \<and>
         new_events s (snd (clear_driver_queue s))
           = (if 0 < threads_num s then [QueueGetTimeout 1000] else [])"
proof (cases "0 < threads_num s")
  case True
  then obtain n where n: "nat (threads_num s) = Suc n" by (cases "nat (threads_num s)") auto
  with True assms show ?thesis
    by (simp add: clear_driver_queue_def clear_driver_context_empty new_events_def)
next
  case False
  then have "nat (threads_num s) = 0" by simp
  with False show ?thesis
    by (simp add: clear_driver_queue_def new_events_def assms)
qed

theorem clear_driver_queue_empty_pool_witness:
  "driver_queue drained_ws = [] \<and> has_quit (contexts drained_ws 0) \<and>
   fst (clear_driver_queue drained_ws) = Return () \<and>
   contexts (snd (clear_driver_queue drained_ws)) = contexts drained_ws \<and>
   driver_queue (snd (clear_driver_queue drained_ws)) = []"
proof -
  have q: "driver_queue drained_ws = []" and h: "has_quit (contexts drained_ws 0)"
    by (simp_all add: drained_ws_def drain_defs example_defs)
  from clear_driver_queue_empty_pool [OF q] q h show ?thesis by simp
qed

section \<open>A pool without drivers\<close>

subsection \<open>Claim C6: an acquire that times out\<close>

text \<open>
  Claim C6 says that an acquire timeout reaches the task as a failure that makes the
  record \<^verbatim>\<open>CRITICAL\<close>, and that the run still produces a record for the task. In the
  example without drivers the pool is set up without complaint, \<^verbatim>\<open>scrape_item\<close> raises
  \<^verbatim>\<open>queue.Empty\<close> after its timeout of 60 and touches nothing else, the future holds that
  exception, the record stays \<^verbatim>\<open>INITIALIZED\<close> with no error, and the collector raises
  \<^verbatim>\<open>queue.Empty\<close> in place of returning a record.
\<close>

theorem acquire_timeout_leaves_no_record:
  "initialize_driver_pool no_webdriver InitialState_cls unpooled_ws = Some (Return (), unpooled_ws) \<and>
   driver_queue unpooled_ws = [] \<and>
   scrape_item 3 my_prog 0 unpooled_ws
     = Some (Raise QueueEmpty, unpooled_ws\<lparr>trace := [QueueGetTimeout 60]\<rparr>) \<and>
   map_option (\<lambda>(res, s). (res, fstates s 0, status (statuses s 0), error (statuses s 0),
                           map_option fst (process_completed_future 0 s)))
       (create_and_submit_tasks 3 my_prog unpooled_ws)
     = Some (Return (), FINISHED (Raise QueueEmpty), INITIALIZED, None, Some (Raise QueueEmpty))"
  by (simp add: unpooled_ws_def no_webdriver_def initialize_driver_pool_def generate_driver_context_def
        setup_driver_context_def executor_defs worker_defs example_defs)

subsection \<open>Claim C1: every record reaches the result list once\<close>

text \<open>
  Claim C1 says that each of the submitted records is appended to the result list
  exactly once in every run. In the example without drivers, with two records, both
  workers time out, the first \<^verbatim>\<open>future.result()\<close> of the collector raises
  \<^verbatim>\<open>queue.Empty\<close>, which leaves \<^verbatim>\<open>start_scraping\<close>: nothing is appended.
\<close>

theorem start_scraping_loses_records:
  "map_option (\<lambda>(res, s). (res, scraping_contexts s, map (fstates s) [0, 1], status_contexts s,
                           map (\<lambda>r. status (statuses s r)) [0, 1]))
       (start_scraping 3 my_prog (Return [0, 1]) no_webdriver InitialState_cls [0, 1]
          (new_Webscrapper 1 my_heap))
     = Some (Raise QueueEmpty, [0, 1], [FINISHED (Raise QueueEmpty), FINISHED (Raise QueueEmpty)], [],
             [INITIALIZED, INITIALIZED])"
  by (simp add: start_scraping_def no_webdriver_def initialize_driver_pool_def generate_driver_context_def
        setup_driver_context_def executor_defs worker_defs example_defs)

text \<open>
  The claim does hold for the collector whenever every future it meets either is cancelled
  or holds the record it was submitted with: then each future of the given order adds its
  own record, once. A worker that runs undisturbed does return its own record.
\<close>

lemma scrape_item_returns_own:
  assumes "scrape_item fuel prog b s = Some (Return r, s')"
  shows "r = b"
proof (cases "driver_queue s")
  case Nil
  from scrape_item_empty [OF Nil, of fuel prog b] assms show ?thesis by simp
next
  case (Cons d q)
  define s2 where "s2 = s\<lparr>driver_queue := q, trace := trace s @ [QueueGet d],
      contexts := (contexts s)(d := (contexts s d)\<lparr>context_status := Some b\<rparr>)\<rparr>"
  have b2: "context_status (contexts s2 d) = Some b" by (simp add: s2_def)
  from assms Cons obtain res0 s3 where loop: "run_loop fuel prog d s2 = Some (res0, s3)"
    by (auto simp: scrape_item_def queue_get_def s2_def Let_def split: option.splits)
  obtain pending s4 where h: "handle_exception res0 d s3 = (pending, s4)"
    by (cases "handle_exception res0 d s3")
  from assms Cons loop h obtain s5 where put: "queue_put d s4 = Some s5"
    by (auto simp: scrape_item_def queue_get_def s2_def Let_def split: option.splits)
  from run_loop_inv [OF loop b2] have "context_status (contexts s3 d) = Some b"
    using b2 by (simp add: step_frame_def)
  with handle_exception_frame [OF h] have "context_status (contexts s4 d) = Some b" by simp
  with put have b5: "context_status (contexts s5 d) = Some b"
    by (auto simp: queue_put_def split: if_splits)
  from assms Cons loop h put b5 show ?thesis
    by (auto simp: scrape_item_def queue_get_def s2_def Let_def task_done_def status_of_def
             split: option.splits if_splits)
qed

lemma process_completed_future_own:
  assumes "process_completed_future f s = Some (Return r, s1)"
    and "\<forall>x. fstates s f = FINISHED (Return x) \<longrightarrow> map_of (futures s) f = Some x"
  shows "map_of (futures s) f = Some r \<and> futures s1 = futures s \<and>
         status_contexts s1 = status_contexts s \<and>
         (\<forall>g x. fstates s1 g = FINISHED (Return x) \<longrightarrow> fstates s g = FINISHED (Return x))"
  using assms
  by (auto simp: process_completed_future_def Future_result_def cancel_futures_eq upd_status_def
           split: future_state.splits result.splits option.splits if_splits)

lemma process_completed_tasks_each_once:
  assumes "process_completed_tasks order s = Some (Return (), s')"
    and "\<forall>f \<in> set order. \<forall>x. fstates s f = FINISHED (Return x) \<longrightarrow> map_of (futures s) f = Some x"
  shows "status_contexts s' = status_contexts s @ map (\<lambda>f. the (map_of (futures s) f)) order"
  using assms
proof (induction order arbitrary: s)
  case Nil
  then show ?case by simp
next
  case (Cons f order)
  from Cons.prems(1) obtain r s1 where
    one: "process_completed_future f s = Some (Return r, s1)" and
    rest: "process_completed_tasks order (add_context_status r s1) = Some (Return (), s')"
    by (auto split: option.splits result.splits)
  from Cons.prems(2) have own: "\<forall>x. fstates s f = FINISHED (Return x) \<longrightarrow> map_of (futures s) f = Some x"
    by simp
  note p = process_completed_future_own [OF one own]
  have inv: "\<forall>g \<in> set order. \<forall>x. fstates (add_context_status r s1) g = FINISHED (Return x) \<longrightarrow>
               map_of (futures (add_context_status r s1)) g = Some x"
    using p Cons.prems(2) by (simp add: add_context_status_def)
  from Cons.IH [OF rest inv] p show ?case
    by (simp add: add_context_status_def)
qed

text \<open>
  With two worker threads the worker of one record can return another's. \<^verbatim>\<open>scrape_item\<close>
  is its three stretches in a row; below, the worker of record 0 has put the driver back
  and the worker of record 1 takes and binds it before the first one evaluates its
  \<^verbatim>\<open>return\<close>: the future of record 0 then holds record 1, and the collector appends
  record 1 twice and record 0 never.
\<close>

lemma scrape_item_parts:
  "scrape_item fuel prog b s =
     (case scrape_item_acquire b s of
        (Raise e, s1) \<Rightarrow> Some (Raise e, s1)
      | (Return d, s1) \<Rightarrow>
          (case scrape_item_try fuel prog d s1 of
             None \<Rightarrow> None
           | Some (pending, s6) \<Rightarrow> Some (scrape_item_return d pending s6, s6)))"
  by (auto simp: scrape_item_def scrape_item_acquire_def scrape_item_try_def scrape_item_return_def
        Let_def split: prod.splits result.splits option.splits)

lemma half_pooled_reached:
  "initialize_driver_pool (\<lambda>i. if i = 0 then None else Some (OtherException ''WebDriverException''))
     InitialState_cls ((new_Webscrapper 2 my_heap)\<lparr>scraping_contexts := [0, 1]\<rparr>)
   = Some (Return (), half_pooled_ws)"
  by (simp add: half_pooled_ws_def initialize_driver_pool_def generate_driver_context_def
        setup_driver_context_def numeral_2_eq_2 worker_defs example_defs)

lemma return_after_release_race:
  "(case scrape_item_acquire 0 (submit_tasks half_pooled_ws) of
      (Raise e, s1) \<Rightarrow> False
    | (Return d, s1) \<Rightarrow>
        (case scrape_item_try 3 my_prog d s1 of
           None \<Rightarrow> False
         | Some (pending, s2) \<Rightarrow>
             scrape_item_return d pending s2 = Return 0 \<and>
             (case scrape_item_acquire 1 s2 of
                (Raise e, s3) \<Rightarrow> False
              | (Return d', s3) \<Rightarrow>
                  d' = d \<and> scrape_item_return d pending s3 = Return 1 \<and>
                  (case scrape_item_try 3 my_prog d' (finish_future 0 (scrape_item_return d pending s3) s3) of
                     None \<Rightarrow> False
                   | Some (pending', s4) \<Rightarrow>
                       map_option (\<lambda>(res, s). (res, status_contexts s))
                         (process_completed_tasks [0, 1]
                            (finish_future 1 (scrape_item_return d' pending' s4) s4))
                       = Some (Return (), [1, 1])))))"
  by (simp add: half_pooled_ws_def scrape_item_acquire_def scrape_item_try_def scrape_item_return_def
        numeral_3_eq_3 executor_defs worker_defs example_defs)

end
